theory Spec2Isabelle
  imports Complex_Main "HOL-Library.AList" "HOL-Library.Multiset"
begin

section \<open>JavaScript values\<close>

text \<open>
  The chart data store and the series builder of pnut are JavaScript. Their values are
  modelled by a datatype: \<open>undefined\<close>, \<open>null\<close>, booleans, numbers, strings and plain
  objects (the list of their own properties, in insertion order).

  A number is a double: a finite value, given as the real number it stands for, an
  infinity (\<open>Inf True\<close> is \<open>+Infinity\<close>) or \<open>NaN\<close>. The sign of zero is not part
  of the model.
\<close>

datatype jsnum = Fin real | Inf bool | NaN

datatype jsval =
    JUndefined
  | JNull
  | JBool bool
  | JNum jsnum
  | JStr string
  | JObj "(string \<times> jsval) list"

fun typeof :: "jsval \<Rightarrow> string" where
  "typeof JUndefined = ''undefined''"
| "typeof JNull = ''object''"
| "typeof (JBool _) = ''boolean''"
| "typeof (JNum _) = ''number''"
| "typeof (JStr _) = ''string''"
| "typeof (JObj _) = ''object''"

text \<open>\<open>v == null\<close> holds for \<open>null\<close> and \<open>undefined\<close> only.\<close>

fun is_nullish :: "jsval \<Rightarrow> bool" where
  "is_nullish JUndefined = True"
| "is_nullish JNull = True"
| "is_nullish _ = False"

fun js_neg :: "jsnum \<Rightarrow> jsnum" where
  "js_neg (Fin a) = Fin (- a)"
| "js_neg (Inf s) = Inf (\<not> s)"
| "js_neg NaN = NaN"

fun js_plus :: "jsnum \<Rightarrow> jsnum \<Rightarrow> jsnum" where
  "js_plus (Fin a) (Fin b) = Fin (a + b)"
| "js_plus (Fin a) (Inf s) = Inf s"
| "js_plus (Inf s) (Fin b) = Inf s"
| "js_plus (Inf s) (Inf t) = (if s = t then Inf s else NaN)"
| "js_plus NaN _ = NaN"
| "js_plus _ NaN = NaN"

definition js_minus :: "jsnum \<Rightarrow> jsnum \<Rightarrow> jsnum" where
  "js_minus a b = js_plus a (js_neg b)"

fun js_times :: "jsnum \<Rightarrow> jsnum \<Rightarrow> jsnum" where
  "js_times (Fin a) (Fin b) = Fin (a * b)"
| "js_times (Fin a) (Inf s) = (if a = 0 then NaN else Inf (s = (0 < a)))"
| "js_times (Inf s) (Fin b) = (if b = 0 then NaN else Inf (s = (0 < b)))"
| "js_times (Inf s) (Inf t) = Inf (s = t)"
| "js_times NaN _ = NaN"
| "js_times _ NaN = NaN"

fun js_divide :: "jsnum \<Rightarrow> jsnum \<Rightarrow> jsnum" where
  "js_divide (Fin a) (Fin b) =
     (if b = 0 then (if a = 0 then NaN else Inf (0 < a)) else Fin (a / b))"
| "js_divide (Fin a) (Inf s) = Fin 0"
| "js_divide (Inf s) (Fin b) = Inf (s = (0 \<le> b))"
| "js_divide (Inf s) (Inf t) = NaN"
| "js_divide NaN _ = NaN"
| "js_divide _ NaN = NaN"

text \<open>
  The functions above are the exact results on the extended reals. An arithmetic
  operator of the language gives the double nearest to the exact result
  (IEEE 754 binary64, round to nearest, ties to even): a finite result is rounded to 53
  significant bits, to a multiple of \<open>2^-1074\<close> below \<open>2^-1022\<close>, and becomes an infinity
  when the rounded value reaches \<open>2^1024\<close>.
\<close>

definition round_half_even :: "real \<Rightarrow> int" where
  "round_half_even x =
     (let f = \<lfloor>x\<rfloor>; d = x - of_int f
      in if d < 1 / 2 then f else if 1 / 2 < d then f + 1 else if even f then f else f + 1)"

definition round_double :: "real \<Rightarrow> jsnum" where
  "round_double r =
     (if r = 0 then Fin 0
      else (let a = \<bar>r\<bar>;
                e = max \<lfloor>log 2 a\<rfloor> (- 1022);
                u = 2 powr of_int (e - 52);
                v = of_int (round_half_even (a / u)) * u
            in if 2 ^ 1024 \<le> v then Inf (0 < r) else Fin (sgn r * v)))"

fun rounded :: "jsnum \<Rightarrow> jsnum" where
  "rounded (Fin r) = round_double r"
| "rounded n = n"

text \<open>\<open>a + b\<close>, \<open>a - b\<close>, \<open>a * b\<close> and \<open>a / b\<close> on numbers.\<close>

definition num_add :: "jsnum \<Rightarrow> jsnum \<Rightarrow> jsnum" where
  "num_add a b = rounded (js_plus a b)"

definition num_sub :: "jsnum \<Rightarrow> jsnum \<Rightarrow> jsnum" where
  "num_sub a b = rounded (js_minus a b)"

definition num_mul :: "jsnum \<Rightarrow> jsnum \<Rightarrow> jsnum" where
  "num_mul a b = rounded (js_times a b)"

definition num_div :: "jsnum \<Rightarrow> jsnum \<Rightarrow> jsnum" where
  "num_div a b = rounded (js_divide a b)"

text \<open>A real number that is a finite double: rounding leaves it as it is.\<close>

definition representable :: "real \<Rightarrow> bool" where
  "representable r = (round_double r = Fin r)"

text \<open>\<open>a < b\<close> and \<open>a == b\<close> on numbers: every comparison with \<open>NaN\<close> is false.\<close>

fun js_less :: "jsnum \<Rightarrow> jsnum \<Rightarrow> bool" where
  "js_less (Fin a) (Fin b) = (a < b)"
| "js_less (Fin a) (Inf s) = s"
| "js_less (Inf s) (Fin b) = (\<not> s)"
| "js_less (Inf s) (Inf t) = (\<not> s \<and> t)"
| "js_less NaN _ = False"
| "js_less _ NaN = False"

definition js_num_eq :: "jsnum \<Rightarrow> jsnum \<Rightarrow> bool" where
  "js_num_eq a b = (a \<noteq> NaN \<and> a = b)"

fun Math_round :: "jsnum \<Rightarrow> jsnum" where
  "Math_round (Fin r) = Fin (of_int \<lfloor>r + 1 / 2\<rfloor>)"
| "Math_round n = n"

fun Math_floor :: "jsnum \<Rightarrow> jsnum" where
  "Math_floor (Fin r) = Fin (of_int \<lfloor>r\<rfloor>)"
| "Math_floor n = n"

fun Math_ceil :: "jsnum \<Rightarrow> jsnum" where
  "Math_ceil (Fin r) = Fin (of_int \<lceil>r\<rceil>)"
| "Math_ceil n = n"

text \<open>The truth value of a number used as a condition: \<open>0\<close> and \<open>NaN\<close> are falsy.\<close>

fun num_truthy :: "jsnum \<Rightarrow> bool" where
  "num_truthy (Fin r) = (r \<noteq> 0)"
| "num_truthy (Inf s) = True"
| "num_truthy NaN = False"

section \<open>More of JavaScript: conversions and operators\<close>

text \<open>
  A point is a plain object, the list of its own properties.
\<close>

type_synonym Point = "(string \<times> jsval) list"

text \<open>
  The series builder keys its maps by \<open>String(value)\<close> and compares and adds arbitrary
  values, and \<open>isNaN\<close> converts its argument to a number. Two conversions depend on
  the number syntax of the host: the text of a number that is not a safe integer, and
  the number a string stands for. They are parameters of the model, fields of \<open>host\<close>;
  an integer below \<open>2^53\<close> in absolute value is printed in decimal digits as every host
  does. The third field is the order in which the engine leaves an array of points that
  is sorted with a comparator that is not consistent: the language leaves that order to
  the implementation.
\<close>

record host =
  number_to_string :: "real \<Rightarrow> string"
  string_to_number :: "string \<Rightarrow> jsnum"
  engine_sort :: "(Point \<Rightarrow> Point \<Rightarrow> jsnum) \<Rightarrow> Point list \<Rightarrow> Point list"

fun digits :: "nat \<Rightarrow> string" where
  "digits n =
     (if n < 10 then [''0123456789'' ! n]
      else digits (n div 10) @ [''0123456789'' ! (n mod 10)])"

declare digits.simps [simp del]

definition int_to_string :: "int \<Rightarrow> string" where
  "int_to_string i = (if i < 0 then CHR ''-'' # digits (nat (- i)) else digits (nat i))"

fun Number_toString :: "host \<Rightarrow> jsnum \<Rightarrow> string" where
  "Number_toString h NaN = ''NaN''"
| "Number_toString h (Inf s) = (if s then ''Infinity'' else ''-Infinity'')"
| "Number_toString h (Fin r) =
     (if r = of_int \<lfloor>r\<rfloor> \<and> \<bar>r\<bar> < 2 ^ 53 then int_to_string \<lfloor>r\<rfloor>
      else number_to_string h r)"

text \<open>\<open>String(v)\<close>, which is also what \<open>'' + v\<close> appends for these values.\<close>

fun js_String :: "host \<Rightarrow> jsval \<Rightarrow> string" where
  "js_String h JUndefined = ''undefined''"
| "js_String h JNull = ''null''"
| "js_String h (JBool b) = (if b then ''true'' else ''false'')"
| "js_String h (JNum n) = Number_toString h n"
| "js_String h (JStr s) = s"
| "js_String h (JObj _) = ''[object Object]''"

fun js_truthy :: "jsval \<Rightarrow> bool" where
  "js_truthy JUndefined = False"
| "js_truthy JNull = False"
| "js_truthy (JBool b) = b"
| "js_truthy (JNum n) = num_truthy n"
| "js_truthy (JStr s) = (s \<noteq> [])"
| "js_truthy (JObj _) = True"

text \<open>\<open>a || b\<close>.\<close>

definition js_or :: "jsval \<Rightarrow> jsval \<Rightarrow> jsval" where
  "js_or a b = (if js_truthy a then a else b)"

text \<open>
  \<open>ToPrimitive\<close> turns a plain object into the string \<open>[object Object]\<close>;
  \<open>ToNumber\<close> of a primitive.
\<close>

fun ToPrimitive :: "jsval \<Rightarrow> jsval" where
  "ToPrimitive (JObj _) = JStr ''[object Object]''"
| "ToPrimitive v = v"

fun ToNumber :: "host \<Rightarrow> jsval \<Rightarrow> jsnum" where
  "ToNumber h JUndefined = NaN"
| "ToNumber h JNull = Fin 0"
| "ToNumber h (JBool b) = (if b then Fin 1 else Fin 0)"
| "ToNumber h (JNum n) = n"
| "ToNumber h (JStr s) = string_to_number h s"
| "ToNumber h (JObj _) = NaN"

text \<open>Strings are compared unit by unit, a proper prefix being smaller.\<close>

fun str_less :: "string \<Rightarrow> string \<Rightarrow> bool" where
  "str_less [] [] = False"
| "str_less [] (y # ys) = True"
| "str_less (x # xs) [] = False"
| "str_less (x # xs) (y # ys) =
     (if (of_char x :: nat) < of_char y then True
      else if x = y then str_less xs ys
      else False)"

text \<open>\<open>a < b\<close> on values (\<open>a > b\<close> is \<open>b < a\<close>), \<open>a + b\<close> and \<open>a / b\<close>.\<close>

definition js_lt :: "host \<Rightarrow> jsval \<Rightarrow> jsval \<Rightarrow> bool" where
  "js_lt h a b =
     (case (ToPrimitive a, ToPrimitive b) of
        (JStr s, JStr t) \<Rightarrow> str_less s t
      | (p, q) \<Rightarrow> js_less (ToNumber h p) (ToNumber h q))"

definition js_add :: "host \<Rightarrow> jsval \<Rightarrow> jsval \<Rightarrow> jsval" where
  "js_add h a b =
     (let p = ToPrimitive a; q = ToPrimitive b
      in if typeof p = ''string'' \<or> typeof q = ''string''
         then JStr (js_String h p @ js_String h q)
         else JNum (num_add (ToNumber h p) (ToNumber h q)))"

definition js_div :: "host \<Rightarrow> jsval \<Rightarrow> jsval \<Rightarrow> jsval" where
  "js_div h a b = JNum (num_div (ToNumber h (ToPrimitive a)) (ToNumber h (ToPrimitive b)))"

subsection \<open>Objects and arrays\<close>

text \<open>
  \<open>item[key]\<close> on a point is
  \<open>undefined\<close> for a property the object does not have (properties inherited from
  \<open>Object.prototype\<close> are not looked up on points); an assignment replaces the value of
  a property in its place or appends the property; \<open>{...a, ...b}\<close> copies \<open>a\<close> and
  assigns the properties of \<open>b\<close> in their order. Apart from copying, the code
  does not go through the properties of a point, so the order of the list has no effect
  on what it computes.
\<close>

definition obj_get :: "Point \<Rightarrow> string \<Rightarrow> jsval" where
  "obj_get item k = (case map_of item k of None \<Rightarrow> JUndefined | Some v \<Rightarrow> v)"

definition spread :: "Point \<Rightarrow> Point \<Rightarrow> Point" where
  "spread a b = foldl (\<lambda>acc (k, v). AList.update k v acc) a b"

text \<open>
  \<open>Array.prototype.sort\<close> with a comparator. The language defines when a comparator
  is consistent for the values of the array: its result is never \<open>NaN\<close>; with \<open>a = b\<close>
  for a zero result, \<open>a < b\<close> for a negative and \<open>a > b\<close> for a positive one, \<open>=\<close> is
  reflexive, symmetric and transitive, and \<open><\<close> and \<open>>\<close> are transitive. For a
  consistent comparator the sort is stable and its result is the one stable sorted order,
  which insertion from the left computes (an element goes before the first one that the
  comparator puts after it). For any other comparator the order is the engine's.
\<close>

definition consistent_comparator :: "('a \<Rightarrow> 'a \<Rightarrow> jsnum) \<Rightarrow> 'a list \<Rightarrow> bool" where
  "consistent_comparator cmp xs =
     (\<forall>a\<in>set xs. \<forall>b\<in>set xs. \<forall>c\<in>set xs.
        cmp a b \<noteq> NaN \<and>
        cmp a a = Fin 0 \<and>
        (cmp a b = Fin 0 \<longrightarrow> cmp b a = Fin 0) \<and>
        (cmp a b = Fin 0 \<and> cmp b c = Fin 0 \<longrightarrow> cmp a c = Fin 0) \<and>
        (js_less (cmp a b) (Fin 0) \<and> js_less (cmp b c) (Fin 0) \<longrightarrow> js_less (cmp a c) (Fin 0)) \<and>
        (js_less (Fin 0) (cmp a b) \<and> js_less (Fin 0) (cmp b c) \<longrightarrow> js_less (Fin 0) (cmp a c)))"

fun insert_sorted :: "('a \<Rightarrow> 'a \<Rightarrow> jsnum) \<Rightarrow> 'a \<Rightarrow> 'a list \<Rightarrow> 'a list" where
  "insert_sorted cmp x [] = [x]"
| "insert_sorted cmp x (y # ys) =
     (if js_less (Fin 0) (cmp y x) then x # y # ys else y # insert_sorted cmp x ys)"

definition stable_sort :: "('a \<Rightarrow> 'a \<Rightarrow> jsnum) \<Rightarrow> 'a list \<Rightarrow> 'a list" where
  "stable_sort cmp xs = foldl (\<lambda>acc x. insert_sorted cmp x acc) [] xs"

definition js_sort :: "host \<Rightarrow> (Point \<Rightarrow> Point \<Rightarrow> jsnum) \<Rightarrow> Point list \<Rightarrow> Point list" where
  "js_sort h cmp xs =
     (if consistent_comparator cmp xs then stable_sort cmp xs else engine_sort h cmp xs)"

text \<open>
  \<open>Object.entries\<close> of an object used as a dictionary: the keys that are array
  indices (the decimal numerals below \<open>2^32 - 1\<close>) come first, in ascending order, and
  the other keys follow in the order of their creation.
\<close>

definition index_of_key :: "string \<Rightarrow> nat option" where
  "index_of_key k =
     (if k \<noteq> [] \<and> list_all (\<lambda>c. c \<in> set ''0123456789'') k \<and> (k = ''0'' \<or> hd k \<noteq> CHR ''0'')
      then (let n = foldl (\<lambda>acc c. 10 * acc + (of_char c - 48)) 0 k
            in if n < 4294967295 then Some n else None)
      else None)"

definition Object_entries :: "(string \<times> 'a) list \<Rightarrow> (string \<times> 'a) list" where
  "Object_entries obj =
     sort_key (\<lambda>(k, v). the (index_of_key k)) (filter (\<lambda>(k, v). index_of_key k \<noteq> None) obj)
     @ filter (\<lambda>(k, v). index_of_key k = None) obj"

text \<open>
  A dictionary made with \<open>{}\<close> inherits from \<open>Object.prototype\<close>: reading one of these
  names gives a function (or the prototype), never \<open>undefined\<close>.
\<close>

definition Object_prototype_names :: "string list" where
  "Object_prototype_names =
     [''constructor'', ''__defineGetter__'', ''__defineSetter__'', ''hasOwnProperty'',
      ''__lookupGetter__'', ''__lookupSetter__'', ''isPrototypeOf'', ''propertyIsEnumerable'',
      ''toString'', ''valueOf'', ''__proto__'', ''toLocaleString'']"

section \<open>The chart data store (src/chartdata/ChartData.js)\<close>

subsection \<open>Scalars\<close>

definition isValueValid :: "jsval \<Rightarrow> bool" where
  "isValueValid v = (typeof v = ''string'' \<or> typeof v = ''number'' \<or> v = JNull)"

definition isValueContinuous :: "jsval \<Rightarrow> bool" where
  "isValueContinuous v = (typeof v = ''number'')"

text \<open>
  \<open>ChartData.lerp\<close>. The result is the returned value together with the lines the call
  writes with \<open>console.error\<close>. The last two branches of the source, the test
  \<open>typeof valueA != "number" || typeof valueB != "number"\<close> and the arithmetic on two
  numbers, are the two branches of the final case distinction.
\<close>

definition lerp :: "jsval \<Rightarrow> jsval \<Rightarrow> jsnum \<Rightarrow> jsval \<times> string list" where
  "lerp valueA valueB blend =
     (if js_num_eq blend (Fin 0) then (valueA, [])
      else if js_num_eq blend (Fin 1) then (valueB, [])
      else if js_less blend (Fin 0) \<or> js_less (Fin 1) blend
        then (JNull, [''ChartData: blend must be from 0 to 1 inclusive''])
      else if is_nullish valueA \<or> is_nullish valueB then (JNull, [])
      else (case (valueA, valueB) of
              (JNum a, JNum b) \<Rightarrow> (JNum (num_add (num_mul (num_sub b a) blend) a), [])
            | _ \<Rightarrow> (valueA, [])))"

subsection \<open>Rows and columns\<close>

text \<open>
  A row is an Immutable \<open>Map\<close> from column keys to cells, here the list of its entries
  (an object or a \<open>Map\<close> has every key once). \<open>row.get(key)\<close> is \<open>undefined\<close> for a
  key the row does not have.
\<close>

type_synonym ChartRow = "(string \<times> jsval) list"

definition row_get :: "ChartRow \<Rightarrow> string \<Rightarrow> jsval" where
  "row_get row k = (case map_of row k of None \<Rightarrow> JUndefined | Some v \<Rightarrow> v)"

text \<open>
  A column definition as the caller writes it: \<open>label\<close> and \<open>isContinuous\<close> are
  optional.
\<close>

record ChartColumnDefinition =
  def_key :: string
  def_label :: "string option"
  def_isContinuous :: "bool option"

text \<open>
  Modelled from the spec: the \<open>ChartColumn\<close> record (ChartColumn.js is not part of the
  source tree), \<open>{key, label, isContinuous: boolean}\<close>. \<open>Column\<close> builds it from a
  definition; an \<open>isContinuous\<close> that is not set reads as false.
\<close>

record ChartColumn =
  key :: string
  label :: "string option"
  isContinuous :: bool

definition Column :: "ChartColumnDefinition \<Rightarrow> ChartColumn" where
  "Column d = \<lparr>key = def_key d, label = def_label d,
               isContinuous = (def_isContinuous d = Some True)\<rparr>"

record ChartData =
  columns :: "(string \<times> ChartColumn) list"
  rows :: "ChartRow list"

definition createRows :: "ChartRow list \<Rightarrow> ChartRow list" where
  "createRows rs =
     map (\<lambda>row. map (\<lambda>(k, cell). (k, if isValueValid cell then cell else JNull)) row) rs"

text \<open>
  \<open>_addContinuous\<close>: the condition \<open>col.get('isContinuous')\<close> is true for an explicit
  \<open>true\<close> only; \<open>!rows\<close> is false for every list. Otherwise the first row with a
  non-null value for the key is looked for, with the empty \<open>Map()\<close> as the default.
\<close>

definition addContinuous :: "ChartColumnDefinition \<Rightarrow> ChartRow list \<Rightarrow> ChartColumnDefinition" where
  "addContinuous col rs =
     (if def_isContinuous col = Some True then col
      else (let k = def_key col;
                row = (case find (\<lambda>row. \<not> is_nullish (row_get row k)) rs of
                         None \<Rightarrow> [] | Some r \<Rightarrow> r)
            in col\<lparr>def_isContinuous := Some (isValueContinuous (row_get row k))\<rparr>))"

text \<open>
  The columns are an \<open>OrderedMap\<close>: \<open>set\<close> replaces the value of a key that is there,
  in its place, and appends a new key.
\<close>

definition createColumns ::
  "ChartColumnDefinition list \<Rightarrow> ChartRow list \<Rightarrow> (string \<times> ChartColumn) list" where
  "createColumns cols rs =
     foldl (\<lambda>m col. AList.update (def_key col) (Column (addContinuous col rs)) m) [] cols"

definition new_ChartData :: "ChartRow list \<Rightarrow> ChartColumnDefinition list \<Rightarrow> ChartData" where
  "new_ChartData rs cols =
     (let chartDataRows = createRows rs
      in \<lparr>columns = createColumns cols chartDataRows, rows = chartDataRows\<rparr>)"

text \<open>
  The methods that derive a store pass \<open>this.columns\<close> to the constructor: the
  \<open>ChartColumn\<close> records are read as definitions again.
\<close>

definition column_defs :: "ChartData \<Rightarrow> ChartColumnDefinition list" where
  "column_defs cd =
     map (\<lambda>(k, c). \<lparr>def_key = key c, def_label = label c,
                     def_isContinuous = Some (isContinuous c)\<rparr>) (columns cd)"

subsection \<open>Validation\<close>

text \<open>
  The methods report an invalid argument with \<open>console.error\<close> and return \<open>null\<close>
  (\<open>None\<close>); the console lines of the methods are not part of the model. What a method
  can throw is a value: a \<open>TypeError\<close> of the host (a method call on \<open>undefined\<close> or
  \<open>null\<close>), or a value thrown by the code itself.
\<close>

datatype js_error = TypeError | Thrown string | IndexOutOfRangeError

definition columnError :: "ChartData \<Rightarrow> string \<Rightarrow> bool" where
  "columnError cd column = (map_of (columns cd) column = None)"

definition columnListError :: "ChartData \<Rightarrow> string list \<Rightarrow> bool" where
  "columnListError cd columnList = list_ex (columnError cd) columnList"

text \<open>
  \<open>_indexError(index, max, integer = true)\<close>: \<open>max\<close> (here \<open>maxi\<close>) is a number, or
  \<open>None\<close> for a \<open>null\<close> or missing argument. The second test is \<open>max && index > max\<close>, so it needs
  a truthy \<open>max\<close>.
\<close>

definition indexError :: "jsnum \<Rightarrow> jsnum option \<Rightarrow> bool \<Rightarrow> bool" where
  "indexError index maxi integer =
     (if js_less index (Fin 0) then True
      else if (case maxi of None \<Rightarrow> False | Some m \<Rightarrow> num_truthy m \<and> js_less m index) then True
      else if integer \<and> \<not> js_num_eq (Math_round index) index then True
      else False)"

subsection \<open>Immutable collections\<close>

text \<open>
  \<open>toOrderedSet\<close> keeps the first occurrence of every value. \<open>groupBy\<close> on a \<open>List\<close>
  gives an ordered map from each key to the list of its elements, the keys in the order
  of their first element. \<open>List.get\<close> is \<open>undefined\<close> (\<open>None\<close>) outside the list and
  counts a negative index from the end. Keys and set elements are compared with
  \<open>Immutable.is\<close>, which is equality of scalars.
\<close>

definition toOrderedSet :: "'a list \<Rightarrow> 'a list" where
  "toOrderedSet xs = foldl (\<lambda>acc x. if x \<in> set acc then acc else acc @ [x]) [] xs"

definition groupBy :: "('a \<Rightarrow> 'k) \<Rightarrow> 'a list \<Rightarrow> ('k \<times> 'a list) list" where
  "groupBy f xs =
     foldl (\<lambda>groups x. case map_of groups (f x) of
                          None \<Rightarrow> groups @ [(f x, [x])]
                        | Some g \<Rightarrow> AList.update (f x) (g @ [x]) groups) [] xs"

definition List_get :: "'a list \<Rightarrow> jsnum \<Rightarrow> 'a option" where
  "List_get xs index =
     (case index of
        Fin r \<Rightarrow>
          (let i = (if r < 0 then real (length xs) + r else r)
           in if i = of_int \<lfloor>i\<rfloor> \<and> 0 \<le> i \<and> i < real (length xs)
              then Some (xs ! nat \<lfloor>i\<rfloor>) else None)
      | _ \<Rightarrow> None)"

subsection \<open>Queries\<close>

text \<open>
  The results of these queries are memoized in \<open>_memos\<close> under the keys
  \<open>getColumnData.column\<close>, \<open>getUniqueValues.column\<close>, \<open>makeFrames.column\<close> and
  \<open>frameAtIndex.column[index]\<close>. Each of these keys determines the method and its
  arguments, and the cached value is the value of a function of the rows and the columns,
  which never change: a call returns what the function returns, and the model calls the
  function. (The cache of the aggregates is another matter, see below.)
\<close>

definition getColumnData :: "ChartData \<Rightarrow> string \<Rightarrow> jsval list option" where
  "getColumnData cd column =
     (if columnError cd column then None
      else Some (map (\<lambda>row. row_get row column) (rows cd)))"

definition getUniqueValues :: "ChartData \<Rightarrow> string \<Rightarrow> jsval list option" where
  "getUniqueValues cd column =
     (if columnError cd column then None
      else Some (toOrderedSet (map (\<lambda>ii. row_get ii column) (rows cd))))"

definition makeFrames :: "ChartData \<Rightarrow> string \<Rightarrow> ChartRow list list option" where
  "makeFrames cd column =
     (if columnError cd column then None
      else Some (map snd (groupBy (\<lambda>ii. row_get ii column) (rows cd))))"

text \<open>
  \<open>frameAtIndex\<close>: \<open>frames.get(index)\<close> may be \<open>undefined\<close>, and \<open>List(undefined)\<close>
  is the empty list. The two subtractions of the frame methods, \<open>frames.size - 1\<close> and
  \<open>index - indexA\<close> (a double minus its floor), are exact in doubles and are written
  without rounding.
\<close>

definition frameAtIndex :: "ChartData \<Rightarrow> string \<Rightarrow> jsnum \<Rightarrow> js_error + ChartData option" where
  "frameAtIndex cd frameColumn index =
     (if columnError cd frameColumn \<or> indexError index None True then Inr None
      else (case makeFrames cd frameColumn of
              None \<Rightarrow> Inl TypeError
            | Some frames \<Rightarrow>
                if indexError index (Some (Fin (real (length frames) - 1))) True then Inr None
                else Inr (Some (new_ChartData
                       (case List_get frames index of None \<Rightarrow> [] | Some frame \<Rightarrow> frame)
                       (column_defs cd)))))"

definition getRowFromFrame :: "(jsval \<times> ChartRow list) list \<Rightarrow> jsval \<Rightarrow> ChartRow option" where
  "getRowFromFrame frame primaryValue =
     (case map_of frame primaryValue of
        None \<Rightarrow> None
      | Some rowList \<Rightarrow> (case rowList of [] \<Rightarrow> None | first # _ \<Rightarrow> Some first))"

text \<open>
  The reduction over the columns that builds one interpolated row from the matching rows
  of the two frames.
\<close>

definition interpolateRow ::
  "(string \<times> ChartColumn) list \<Rightarrow> string \<Rightarrow> jsnum \<Rightarrow> ChartRow \<Rightarrow> ChartRow \<Rightarrow> ChartRow" where
  "interpolateRow cols primaryColumn blend rowA rowB =
     foldl (\<lambda>m (k, column).
              AList.update (key column)
                (if isContinuous column \<and> key column \<noteq> primaryColumn
                 then fst (lerp (row_get rowA (key column)) (row_get rowB (key column)) blend)
                 else row_get rowA (key column)) m) [] cols"

definition frameAtIndexInterpolated ::
  "ChartData \<Rightarrow> string \<Rightarrow> string \<Rightarrow> jsnum \<Rightarrow> js_error + ChartData option" where
  "frameAtIndexInterpolated cd frameColumn primaryColumn index =
     (if columnError cd frameColumn \<or> columnError cd primaryColumn \<or> indexError index None False
        then Inr None
      else if frameColumn = primaryColumn then Inr None
      else if js_num_eq index (Math_round index) then frameAtIndex cd frameColumn index
      else (case makeFrames cd frameColumn of
              None \<Rightarrow> Inl TypeError
            | Some frames \<Rightarrow>
          if indexError index (Some (Fin (real (length frames) - 1))) False then Inr None
          else (case getUniqueValues cd primaryColumn of
                  None \<Rightarrow> Inl TypeError
                | Some allPrimaryValues \<Rightarrow>
            let indexA = Math_floor index;
                indexB = Math_ceil index;
                blend = js_minus index indexA
            in (case List_get frames indexA of
                  None \<Rightarrow> Inl TypeError
                | Some fa \<Rightarrow>
               (case List_get frames indexB of
                  None \<Rightarrow> Inl TypeError
                | Some fb \<Rightarrow>
                 let frameA = groupBy (\<lambda>ii. row_get ii primaryColumn) fa;
                     frameB = groupBy (\<lambda>ii. row_get ii primaryColumn) fb;
                     interpolatedFrame =
                       List.map_filter (\<lambda>primaryValue.
                         case getRowFromFrame frameA primaryValue of
                           None \<Rightarrow> None
                         | Some rowA \<Rightarrow>
                            (case getRowFromFrame frameB primaryValue of
                               None \<Rightarrow> None
                             | Some rowB \<Rightarrow>
                                 Some (interpolateRow (columns cd) primaryColumn blend rowA rowB)))
                         allPrimaryValues
                 in Inr (Some (new_ChartData interpolatedFrame (column_defs cd))))))))"

subsection \<open>Transformations\<close>

definition updateRows :: "(ChartRow list \<Rightarrow> ChartRow list) \<Rightarrow> ChartData \<Rightarrow> ChartData" where
  "updateRows updater cd = new_ChartData (updater (rows cd)) (column_defs cd)"

definition mapRows :: "(ChartRow \<Rightarrow> nat \<Rightarrow> ChartRow) \<Rightarrow> ChartData \<Rightarrow> ChartData" where
  "mapRows mapper cd =
     new_ChartData (map (\<lambda>(i, row). mapper row i) (enumerate 0 (rows cd))) (column_defs cd)"

subsection \<open>Aggregation\<close>

datatype ChartColumnArg = ColumnName string | ColumnNames "string list"

fun columnArgList :: "ChartColumnArg \<Rightarrow> string list" where
  "columnArgList (ColumnName c) = [c]"
| "columnArgList (ColumnNames cs) = cs"

definition allValuesForColumns :: "ChartData \<Rightarrow> string list \<Rightarrow> jsval list" where
  "allValuesForColumns cd columnList =
     foldl (\<lambda>values row. values @ map snd (filter (\<lambda>(k, val). k \<in> set columnList) row))
       [] (rows cd)"

datatype operation = Min | Max | Sum | Average | Median

text \<open>
  Modelled from the spec: the operations of the \<open>immutable-math\<close> package, which is
  not part of the source tree. The spec fixes them on an empty list of values: the sum is
  \<open>0\<close> and the other four are not-a-number. On a list that is not empty they are the
  parameter \<open>lib\<close>, whose result may be any value (the sum of strings is a string).
\<close>

definition ImmutableMath ::
  "(operation \<Rightarrow> jsval list \<Rightarrow> jsval) \<Rightarrow> operation \<Rightarrow> jsval list \<Rightarrow> jsval" where
  "ImmutableMath lib operation vals =
     (if vals = [] then (if operation = Sum then JNum (Fin 0) else JNum NaN)
      else lib operation vals)"

text \<open>The global \<open>isNaN\<close> converts its argument to a number.\<close>

definition isNaN :: "host \<Rightarrow> jsval \<Rightarrow> bool" where
  "isNaN h v = (ToNumber h (ToPrimitive v) = NaN)"

text \<open>
  \<open>_memoize(key, fn)\<close>. Every instance has a cache \<open>_memos\<close>, an object used as a
  dictionary that starts empty and that the queries write to: a key that is there gives
  the cached value, and a key that is not there gets the value of \<open>fn()\<close>. The
  aggregates cache scalars under keys that begin with the name of the operation and a
  dot, which no key of another method does; \<open>Memos\<close> is this part of the cache. The
  cache is passed to an aggregate and returned by it.
\<close>

type_synonym Memos = "(string \<times> jsval) list"

definition memoize :: "Memos \<Rightarrow> string \<Rightarrow> jsval \<Rightarrow> jsval \<times> Memos" where
  "memoize memos k v =
     (case map_of memos k of
        Some cached \<Rightarrow> (cached, memos)
      | None \<Rightarrow> (v, memos @ [(k, v)]))"

fun operation_name :: "operation \<Rightarrow> string" where
  "operation_name Min = ''min''"
| "operation_name Max = ''max''"
| "operation_name Sum = ''sum''"
| "operation_name Average = ''average''"
| "operation_name Median = ''median''"

text \<open>\<open>columnList.join(',')\<close>.\<close>

fun join_comma :: "string list \<Rightarrow> string" where
  "join_comma [] = []"
| "join_comma [x] = x"
| "join_comma (x # y # ys) = x @ '','' @ join_comma (y # ys)"

definition memo_key :: "operation \<Rightarrow> string list \<Rightarrow> string" where
  "memo_key operation columnList = operation_name operation @ ''.'' @ join_comma columnList"

definition aggregation ::
  "(operation \<Rightarrow> jsval list \<Rightarrow> jsval) \<Rightarrow> host \<Rightarrow> operation \<Rightarrow> ChartData \<Rightarrow> Memos \<Rightarrow>
   ChartColumnArg \<Rightarrow> jsval \<times> Memos" where
  "aggregation lib h operation cd memos cols =
     (let columnList = columnArgList cols
      in if columnListError cd columnList then (JNull, memos)
         else memoize memos (memo_key operation columnList)
                (let result = ImmutableMath lib operation
                                (filter (\<lambda>val. \<not> is_nullish val)
                                   (allValuesForColumns cd columnList))
                 in if isNaN h result then JNull else result))"

definition min_of ::
  "(operation \<Rightarrow> jsval list \<Rightarrow> jsval) \<Rightarrow> host \<Rightarrow> ChartData \<Rightarrow> Memos \<Rightarrow> ChartColumnArg \<Rightarrow>
   jsval \<times> Memos" where
  "min_of lib h cd memos cols = aggregation lib h Min cd memos cols"

definition max_of ::
  "(operation \<Rightarrow> jsval list \<Rightarrow> jsval) \<Rightarrow> host \<Rightarrow> ChartData \<Rightarrow> Memos \<Rightarrow> ChartColumnArg \<Rightarrow>
   jsval \<times> Memos" where
  "max_of lib h cd memos cols = aggregation lib h Max cd memos cols"

definition sum_of ::
  "(operation \<Rightarrow> jsval list \<Rightarrow> jsval) \<Rightarrow> host \<Rightarrow> ChartData \<Rightarrow> Memos \<Rightarrow> ChartColumnArg \<Rightarrow>
   jsval \<times> Memos" where
  "sum_of lib h cd memos cols = aggregation lib h Sum cd memos cols"

definition average ::
  "(operation \<Rightarrow> jsval list \<Rightarrow> jsval) \<Rightarrow> host \<Rightarrow> ChartData \<Rightarrow> Memos \<Rightarrow> ChartColumnArg \<Rightarrow>
   jsval \<times> Memos" where
  "average lib h cd memos cols = aggregation lib h Average cd memos cols"

definition median ::
  "(operation \<Rightarrow> jsval list \<Rightarrow> jsval) \<Rightarrow> host \<Rightarrow> ChartData \<Rightarrow> Memos \<Rightarrow> ChartColumnArg \<Rightarrow>
   jsval \<times> Memos" where
  "median lib h cd memos cols = aggregation lib h Median cd memos cols"

text \<open>
  The contributing values in the spec's words: the union, over the rows, of the non-null
  values under the named columns.
\<close>

definition spec_union_values :: "ChartData \<Rightarrow> string list \<Rightarrow> jsval list" where
  "spec_union_values cd columnList =
     concat (map (\<lambda>row. [v. (k, v) \<leftarrow> row, k \<in> set columnList, \<not> is_nullish v]) (rows cd))"

subsection \<open>Stores reachable through the public interface\<close>

text \<open>
  A store is reachable when it is built by the constructor, or derived from a reachable
  store by \<open>updateRows\<close>, \<open>mapRows\<close>, \<open>frameAtIndex\<close> or
  \<open>frameAtIndexInterpolated\<close>, with any updater and any mapper.
\<close>

definition cells_valid :: "ChartData \<Rightarrow> bool" where
  "cells_valid cd = list_all (\<lambda>row. list_all (\<lambda>(k, cell). isValueValid cell) row) (rows cd)"

inductive reachable :: "ChartData \<Rightarrow> bool" where
  construct: "reachable (new_ChartData rs defs)"
| by_updateRows: "reachable cd \<Longrightarrow> reachable (updateRows updater cd)"
| by_mapRows: "reachable cd \<Longrightarrow> reachable (mapRows mapper cd)"
| by_frameAtIndex:
    "reachable cd \<Longrightarrow> frameAtIndex cd frameColumn index = Inr (Some cd') \<Longrightarrow> reachable cd'"
| by_frameAtIndexInterpolated:
    "reachable cd \<Longrightarrow>
     frameAtIndexInterpolated cd frameColumn primaryColumn index = Inr (Some cd') \<Longrightarrow>
     reachable cd'"

subsection \<open>Interpolated frames in the words of the spec\<close>

text \<open>
  The first row of a frame whose primary value is the given one; the row the spec
  describes for a matched pair, where a column the row of frame \<open>a\<close> does not have
  reads as \<open>null\<close>; and the row for a primary value, if both frames have a match.
\<close>

definition spec_first_match :: "ChartRow list \<Rightarrow> string \<Rightarrow> jsval \<Rightarrow> ChartRow option" where
  "spec_first_match frame primaryColumn primaryValue =
     find (\<lambda>row. row_get row primaryColumn = primaryValue) frame"

definition spec_interpolated_row ::
  "(string \<times> ChartColumn) list \<Rightarrow> string \<Rightarrow> jsnum \<Rightarrow> ChartRow \<Rightarrow> ChartRow \<Rightarrow> ChartRow" where
  "spec_interpolated_row cols primaryColumn blend rowA rowB =
     map (\<lambda>(k, c).
            (k, if isContinuous c \<and> k \<noteq> primaryColumn
                then fst (lerp (row_get rowA k) (row_get rowB k) blend)
                else (case map_of rowA k of None \<Rightarrow> JNull | Some v \<Rightarrow> v))) cols"

definition spec_row_for ::
  "(string \<times> ChartColumn) list \<Rightarrow> string \<Rightarrow> jsnum \<Rightarrow> ChartRow list \<Rightarrow> ChartRow list \<Rightarrow>
   jsval \<Rightarrow> ChartRow option" where
  "spec_row_for cols primaryColumn blend frameA frameB primaryValue =
     (case spec_first_match frameA primaryColumn primaryValue of
        None \<Rightarrow> None
      | Some rowA \<Rightarrow>
         (case spec_first_match frameB primaryColumn primaryValue of
            None \<Rightarrow> None
          | Some rowB \<Rightarrow> Some (spec_interpolated_row cols primaryColumn blend rowA rowB)))"

section \<open>The point series (src/series)\<close>

subsection \<open>Series\<close>

text \<open>
  The metadata that records which pipeline steps have run; a field that was never set is
  \<open>None\<close>.
\<close>

record Preprocess =
  pp_stacked :: "bool option"
  pp_stackType :: "string option"
  pp_normalizeToPercentage :: "bool option"

text \<open>
  Modelled from the spec: the class \<open>Series\<close> (Series.js is not part of the source
  tree; its test and the classes that use it are). A series is an ordered sequence of
  groups, each an ordered sequence of points, with the \<open>preprocess\<close> metadata beside
  it. \<open>get\<close> fails with an index-range error outside the data; \<open>getPoint\<close> is the
  slice of the \<open>i\<close>-th point of every group, in group order. \<open>mapPoints(fn)\<close> goes
  through the point indices \<open>0\<close> to group length \<open>- 1\<close>, calls \<open>fn(slice, i)\<close>, and
  writes the returned values back so that point \<open>i\<close> of group \<open>g\<close> is \<open>result[g]\<close>; it
  keeps the number of groups and of points, and the metadata travels with the series.
  The model gives the calls \<open>mapPoints\<close> makes (\<open>mapPoints_calls\<close>) and its result; a
  slice or a result that lacks an element is an index-range error.
\<close>

record 'p Series =
  groups :: "'p list list"
  preprocess :: Preprocess

definition get :: "('p, 'a) Series_scheme \<Rightarrow> nat \<Rightarrow> nat \<Rightarrow> js_error + 'p" where
  "get s groupIndex pointIndex =
     (if groupIndex < length (groups s) \<and> pointIndex < length (groups s ! groupIndex)
      then Inr (groups s ! groupIndex ! pointIndex) else Inl IndexOutOfRangeError)"

definition getGroup :: "('p, 'a) Series_scheme \<Rightarrow> nat \<Rightarrow> js_error + 'p list" where
  "getGroup s groupIndex =
     (if groupIndex < length (groups s) then Inr (groups s ! groupIndex)
      else Inl IndexOutOfRangeError)"

definition getPoint :: "('p, 'a) Series_scheme \<Rightarrow> nat \<Rightarrow> js_error + 'p list" where
  "getPoint s pointIndex =
     (if list_all (\<lambda>grp. pointIndex < length grp) (groups s)
      then Inr (map (\<lambda>grp. grp ! pointIndex) (groups s))
      else Inl IndexOutOfRangeError)"

definition group_length :: "('p, 'a) Series_scheme \<Rightarrow> nat" where
  "group_length s = (case groups s of [] \<Rightarrow> 0 | grp # _ \<Rightarrow> length grp)"

fun collect :: "(js_error + 'a) list \<Rightarrow> js_error + 'a list" where
  "collect [] = Inr []"
| "collect (x # xs) =
     (case x of
        Inl e \<Rightarrow> Inl e
      | Inr v \<Rightarrow> (case collect xs of Inl e \<Rightarrow> Inl e | Inr vs \<Rightarrow> Inr (v # vs)))"

definition mapPoints_calls :: "('p, 'a) Series_scheme \<Rightarrow> js_error + ('p list \<times> nat) list" where
  "mapPoints_calls s =
     collect (map (\<lambda>i. case getPoint s i of Inl e \<Rightarrow> Inl e | Inr slice \<Rightarrow> Inr (slice, i))
                [0..<group_length s])"

definition scatter :: "nat \<Rightarrow> 'q list list \<Rightarrow> js_error + 'q list list" where
  "scatter g results =
     (if list_all (\<lambda>result. g \<le> length result) results
      then Inr (map (\<lambda>j. map (\<lambda>result. result ! j) results) [0..<g])
      else Inl IndexOutOfRangeError)"

definition mapPoints ::
  "('p list \<Rightarrow> nat \<Rightarrow> 'q list) \<Rightarrow> ('p, 'a) Series_scheme \<Rightarrow> js_error + ('q, 'a) Series_scheme" where
  "mapPoints fn s =
     (case mapPoints_calls s of
        Inl e \<Rightarrow> Inl e
      | Inr calls \<Rightarrow>
         (case scatter (length (groups s)) (map (\<lambda>(slice, i). fn slice i) calls) of
            Inl e \<Rightarrow> Inl e
          | Inr gs \<Rightarrow> Inr \<lparr>groups = gs, preprocess = preprocess s, \<dots> = Series.more s\<rparr>))"

subsection \<open>GroupedSeries (src/unnamed/part_004)\<close>

datatype GroupKeyArg = GroupKey string | GroupKeys "string list"

text \<open>\<open>[].concat(config.groupKey)\<close>.\<close>

fun concat_groupKey :: "GroupKeyArg \<Rightarrow> string list" where
  "concat_groupKey (GroupKey k) = [k]"
| "concat_groupKey (GroupKeys ks) = ks"

record GroupedSeriesConfig =
  cfg_groupKey :: GroupKeyArg
  cfg_pointKey :: string
  cfg_pointSort :: "(Point \<Rightarrow> Point \<Rightarrow> jsnum) option"
  cfg_data :: "Point list"
  cfg_defaultPoint :: "Point option"

text \<open>
  A grouped series is a series with the fields the constructor passes on to
  \<open>super\<close>; its \<open>preprocess\<close> metadata starts with no field set.
\<close>

record 'p GroupedSeries = "'p Series" +
  series_pointKey :: string
  series_groupKey :: "string list"
  series_rawData :: "'p list"

definition default_pointSort :: "host \<Rightarrow> string \<Rightarrow> Point \<Rightarrow> Point \<Rightarrow> jsnum" where
  "default_pointSort h pointKey a b =
     (if js_lt h (obj_get b pointKey) (obj_get a pointKey) then Fin 1
      else if js_lt h (obj_get a pointKey) (obj_get b pointKey) then Fin (- 1)
      else Fin 0)"

text \<open>
  \<open>baseGroup\<close>, a \<open>Map\<close> from \<open>String(pointValue)\<close> to \<open>{[pointKey]: pointValue}\<close>:
  \<open>set\<close> replaces the value of a key in its place or appends the key.
\<close>

definition make_baseGroup :: "host \<Rightarrow> string \<Rightarrow> Point list \<Rightarrow> (string \<times> Point) list" where
  "make_baseGroup h pointKey data =
     foldl (\<lambda>baseGroup item.
              let pointValue = obj_get item pointKey
              in AList.update (js_String h pointValue) [(pointKey, pointValue)] baseGroup)
       [] data"

text \<open>The dictionary key of an item: \<open>groupKey.reduce((acc, key) => acc + item[key], '')\<close>.\<close>

definition item_key :: "host \<Rightarrow> string list \<Rightarrow> Point \<Rightarrow> string" where
  "item_key h groupKey item = foldl (\<lambda>acc key. acc @ js_String h (obj_get item key)) [] groupKey"

text \<open>
  \<open>groupedItems\<close>: \<open>rr[key] = rr[key] || []; rr[key].push(item)\<close>. For a key that is
  not in the dictionary yet and is the name of an inherited property, \<open>rr[key]\<close> is
  truthy and has no \<open>push\<close>: the call throws a \<open>TypeError\<close>.
\<close>

fun make_groupedItems ::
  "host \<Rightarrow> string list \<Rightarrow> (string \<times> Point list) list \<Rightarrow> Point list \<Rightarrow>
   js_error + (string \<times> Point list) list" where
  "make_groupedItems h groupKey rr [] = Inr rr"
| "make_groupedItems h groupKey rr (item # items) =
     (let k = item_key h groupKey item
      in case map_of rr k of
           Some g \<Rightarrow> make_groupedItems h groupKey (AList.update k (g @ [item]) rr) items
         | None \<Rightarrow>
             if k \<in> set Object_prototype_names then Inl TypeError
             else make_groupedItems h groupKey (rr @ [(k, [item])]) items)"

text \<open>
  \<open>baseValues\<close>: for every group key the value of the first item of the group in which
  it is truthy (\<open>group.find(ii => ii[key])?.[key]\<close>), \<open>undefined\<close> if there is none.
\<close>

definition make_baseValues :: "string list \<Rightarrow> Point list \<Rightarrow> Point" where
  "make_baseValues groupKey grp =
     foldl (\<lambda>obj k. AList.update k
                      (case find (\<lambda>ii. js_truthy (obj_get ii k)) grp of
                         None \<Rightarrow> JUndefined | Some ii \<Rightarrow> obj_get ii k) obj)
       [] groupKey"

definition make_group ::
  "host \<Rightarrow> string \<Rightarrow> string list \<Rightarrow> (Point \<Rightarrow> Point \<Rightarrow> jsnum) \<Rightarrow> Point \<Rightarrow>
   (string \<times> Point) list \<Rightarrow> Point list \<Rightarrow> Point list" where
  "make_group h pointKey groupKey pointSort defaultPoint baseGroup grp =
     (let baseValues = make_baseValues groupKey grp;
          groupMap = map (\<lambda>(k, v). (k, spread (spread defaultPoint baseValues) v)) baseGroup;
          newGroupMap =
            foldl (\<lambda>m item. AList.update (js_String h (obj_get item pointKey))
                               (spread defaultPoint item) m) groupMap grp
      in js_sort h pointSort (map snd newGroupMap))"

definition new_GroupedSeries :: "host \<Rightarrow> GroupedSeriesConfig \<Rightarrow> js_error + Point GroupedSeries" where
  "new_GroupedSeries h config =
     (let pointKey = cfg_pointKey config;
          pointSort = (case cfg_pointSort config of
                         None \<Rightarrow> default_pointSort h pointKey | Some f \<Rightarrow> f);
          data = cfg_data config;
          defaultPoint = (case cfg_defaultPoint config of None \<Rightarrow> [] | Some p \<Rightarrow> p);
          groupKey = concat_groupKey (cfg_groupKey config)
      in if pointKey \<in> set groupKey then Inl (Thrown ''pointKey cannot be used as a groupKey.'')
         else (let baseGroup = make_baseGroup h pointKey data
               in case make_groupedItems h groupKey [] data of
                    Inl e \<Rightarrow> Inl e
                  | Inr groupedItems \<Rightarrow>
                      Inr \<lparr>groups = map (\<lambda>(k, grp).
                                            make_group h pointKey groupKey pointSort defaultPoint
                                              baseGroup grp)
                                       (Object_entries groupedItems),
                           preprocess = \<lparr>pp_stacked = None, pp_stackType = None,
                                         pp_normalizeToPercentage = None\<rparr>,
                           series_pointKey = pointKey, series_groupKey = groupKey,
                           series_rawData = data\<rparr>))"

subsection \<open>Objects in the store\<close>

text \<open>
  Whether a transformation changes what it is given is a question about objects that
  other code holds references to: a chart data instance, a series, the metadata object
  of the series, a point. For this the objects live in a store, a list of objects
  addressed by their position. \<open>new\<close> and an object literal append an object and give
  its address; an assignment to a property replaces the object at its address. A
  series object holds the addresses of its points, group by group, and the address of
  its metadata object \<open>preprocess\<close>; a chart data instance holds its record and its
  cache \<open>_memos\<close>.
\<close>

type_synonym addr = nat

datatype stored =
    Point_obj Point
  | Preprocess_obj Preprocess
  | Series_obj "addr list list" addr
  | ChartData_obj ChartData Memos

type_synonym store = "stored list"

definition store_get :: "store \<Rightarrow> addr \<Rightarrow> stored option" where
  "store_get st a = (if a < length st then Some (st ! a) else None)"

definition alloc :: "store \<Rightarrow> stored \<Rightarrow> store \<times> addr" where
  "alloc st obj = (st @ [obj], length st)"

text \<open>
  \<open>updateRows\<close> and \<open>mapRows\<close> on an instance in the store: both return
  \<open>new ChartData(\<dots>, this.columns)\<close>, and the constructor gives the new instance an
  empty cache. A method call on something that is not a chart data instance is a
  \<open>TypeError\<close>.
\<close>

definition store_updateRows ::
  "(ChartRow list \<Rightarrow> ChartRow list) \<Rightarrow> store \<Rightarrow> addr \<Rightarrow> store \<times> (js_error + addr)" where
  "store_updateRows updater st this =
     (case store_get st this of
        Some (ChartData_obj cd memos) \<Rightarrow>
          (let (st1, a) = alloc st (ChartData_obj (updateRows updater cd) []) in (st1, Inr a))
      | _ \<Rightarrow> (st, Inl TypeError))"

definition store_mapRows ::
  "(ChartRow \<Rightarrow> nat \<Rightarrow> ChartRow) \<Rightarrow> store \<Rightarrow> addr \<Rightarrow> store \<times> (js_error + addr)" where
  "store_mapRows mapper st this =
     (case store_get st this of
        Some (ChartData_obj cd memos) \<Rightarrow>
          (let (st1, a) = alloc st (ChartData_obj (mapRows mapper cd) []) in (st1, Inr a))
      | _ \<Rightarrow> (st, Inl TypeError))"

text \<open>
  Reading a point, and reading and assigning a property of a point. The points of a
  series are point objects; anything else in their place is a \<open>TypeError\<close> in the model.
\<close>

definition get_point :: "store \<Rightarrow> addr \<Rightarrow> js_error + Point" where
  "get_point st a = (case store_get st a of Some (Point_obj p) \<Rightarrow> Inr p | _ \<Rightarrow> Inl TypeError)"

definition get_prop :: "store \<Rightarrow> addr \<Rightarrow> string \<Rightarrow> jsval" where
  "get_prop st a f = (case store_get st a of Some (Point_obj p) \<Rightarrow> obj_get p f | _ \<Rightarrow> JUndefined)"

definition set_prop :: "store \<Rightarrow> addr \<Rightarrow> string \<Rightarrow> jsval \<Rightarrow> store" where
  "set_prop st a f v =
     (case store_get st a of
        Some (Point_obj p) \<Rightarrow> st[a := Point_obj (AList.update f v p)]
      | _ \<Rightarrow> st)"

text \<open>
  Modelled from the spec: \<open>mapPoints\<close> on a series in the store, with a callback that
  may create and change objects. The calls are those of \<open>mapPoints_calls\<close>, made in
  order; the results are scattered as in \<open>mapPoints\<close>; the result is a new series
  object, and its metadata is the metadata object of the given series, which travels
  with it.
\<close>

fun run_calls ::
  "(store \<Rightarrow> addr list \<Rightarrow> nat \<Rightarrow> store \<times> (js_error + addr list)) \<Rightarrow> store \<Rightarrow>
   (addr list \<times> nat) list \<Rightarrow> store \<times> (js_error + addr list list)" where
  "run_calls fn st [] = (st, Inr [])"
| "run_calls fn st ((slice, i) # calls) =
     (case fn st slice i of
        (st1, Inl e) \<Rightarrow> (st1, Inl e)
      | (st1, Inr result) \<Rightarrow>
          (case run_calls fn st1 calls of
             (st2, Inl e) \<Rightarrow> (st2, Inl e)
           | (st2, Inr results) \<Rightarrow> (st2, Inr (result # results))))"

definition store_mapPoints ::
  "(store \<Rightarrow> addr list \<Rightarrow> nat \<Rightarrow> store \<times> (js_error + addr list)) \<Rightarrow> store \<Rightarrow> addr \<Rightarrow>
   store \<times> (js_error + addr)" where
  "store_mapPoints fn st this =
     (case store_get st this of
        Some (Series_obj gs pp) \<Rightarrow>
          (case store_get st pp of
             Some (Preprocess_obj p) \<Rightarrow>
               (case mapPoints_calls \<lparr>groups = gs, preprocess = p\<rparr> of
                  Inl e \<Rightarrow> (st, Inl e)
                | Inr calls \<Rightarrow>
                    (case run_calls fn st calls of
                       (st1, Inl e) \<Rightarrow> (st1, Inl e)
                     | (st1, Inr results) \<Rightarrow>
                         (case scatter (length gs) results of
                            Inl e \<Rightarrow> (st1, Inl e)
                          | Inr gs' \<Rightarrow>
                              (let (st2, a) = alloc st1 (Series_obj gs' pp) in (st2, Inr a)))))
           | _ \<Rightarrow> (st, Inl TypeError))
      | _ \<Rightarrow> (st, Inl TypeError))"

subsection \<open>normalizeToPercentage (src/process/normalizeToPercentage.js)\<close>

text \<open>
  The callback given to \<open>mapPoints\<close>. \<open>slice_total\<close> is the reduction
  \<open>point.reduce((rr, point) => rr + (point[key] || 0), 0)\<close>. \<open>nextPoints\<close> is the
  \<open>map\<close> over the slice: for each point it makes \<open>next\<close>, a new object with the
  properties of the point (\<open>Object.assign({}, point)\<close>), assigns \<open>originalValue\<close> and
  \<open>percentValue\<close>, adds to the variable \<open>sum\<close> of the enclosing call (here \<open>sumv\<close>), and
  assigns \<open>next[key]\<close>, reading \<open>next[key]\<close> again each time.
\<close>

fun slice_total :: "host \<Rightarrow> string \<Rightarrow> store \<Rightarrow> jsval \<Rightarrow> addr list \<Rightarrow> js_error + jsval" where
  "slice_total h k st rr [] = Inr rr"
| "slice_total h k st rr (a # as) =
     (case get_point st a of
        Inl e \<Rightarrow> Inl e
      | Inr p \<Rightarrow> slice_total h k st (js_add h rr (js_or (obj_get p k) (JNum (Fin 0)))) as)"

fun nextPoints ::
  "host \<Rightarrow> string \<Rightarrow> jsval \<Rightarrow> store \<Rightarrow> jsval \<Rightarrow> addr list \<Rightarrow> store \<times> (js_error + addr list)" where
  "nextPoints h k total' st sumv [] = (st, Inr [])"
| "nextPoints h k total' st sumv (a # as) =
     (case get_point st a of
        Inl e \<Rightarrow> (st, Inl e)
      | Inr p \<Rightarrow>
          (let (st1, next) = alloc st (Point_obj p);
               st2 = set_prop st1 next ''originalValue'' (get_prop st1 next k);
               st3 = set_prop st2 next ''percentValue''
                       (js_div h (js_or (get_prop st2 next k) (JNum (Fin 0))) total');
               sum1 = js_add h sumv (js_or (get_prop st3 next k) (JNum (Fin 0)));
               st4 = set_prop st3 next k (js_div h sum1 total')
           in case nextPoints h k total' st4 sum1 as of
                (st5, Inl e) \<Rightarrow> (st5, Inl e)
              | (st5, Inr nexts) \<Rightarrow> (st5, Inr (next # nexts))))"

definition normalize_slice ::
  "host \<Rightarrow> string \<Rightarrow> store \<Rightarrow> addr list \<Rightarrow> nat \<Rightarrow> store \<times> (js_error + addr list)" where
  "normalize_slice h k st point i =
     (case slice_total h k st (JNum (Fin 0)) point of
        Inl e \<Rightarrow> (st, Inl e)
      | Inr total' \<Rightarrow> nextPoints h k total' st (JNum (Fin 0)) point)"

text \<open>
  An assignment \<open>series.preprocess.field = value\<close>: it changes the metadata object that
  the series refers to.
\<close>

definition assign_preprocess ::
  "store \<Rightarrow> addr \<Rightarrow> (Preprocess \<Rightarrow> Preprocess) \<Rightarrow> js_error + store" where
  "assign_preprocess st series upd =
     (case store_get st series of
        Some (Series_obj gs pp) \<Rightarrow>
          (case store_get st pp of
             Some (Preprocess_obj p) \<Rightarrow> Inr (st[pp := Preprocess_obj (upd p)])
           | _ \<Rightarrow> Inl TypeError)
      | _ \<Rightarrow> Inl TypeError)"

text \<open>
  The step: three assignments to \<open>series.preprocess\<close>, then \<open>series.mapPoints\<close>. The
  result is the store as the call leaves it and what the call returns, the address of
  the new series.
\<close>

definition normalizeToPercentage ::
  "host \<Rightarrow> string \<Rightarrow> store \<Rightarrow> addr \<Rightarrow> store \<times> (js_error + addr)" where
  "normalizeToPercentage h k st series =
     (case assign_preprocess st series (\<lambda>p. p\<lparr>pp_normalizeToPercentage := Some True\<rparr>) of
        Inl e \<Rightarrow> (st, Inl e)
      | Inr st1 \<Rightarrow>
     (case assign_preprocess st1 series (\<lambda>p. p\<lparr>pp_stacked := Some True\<rparr>) of
        Inl e \<Rightarrow> (st1, Inl e)
      | Inr st2 \<Rightarrow>
     (case assign_preprocess st2 series (\<lambda>p. p\<lparr>pp_stackType := Some ''points''\<rparr>) of
        Inl e \<Rightarrow> (st2, Inl e)
      | Inr st3 \<Rightarrow> store_mapPoints (normalize_slice h k) st3 series)))"

subsection \<open>Grouped points in the words of the spec\<close>

text \<open>
  Point key values are identified by their string form \<open>String(value)\<close>. The source
  record of a group at a string form is the last record of the group with that string
  form; the point key value of a string form is that of the last record of the input with
  it. \<open>spec_point\<close> is the point of a group at a string form as the builder puts it
  together: \<open>defaultPoint\<close> overlaid with the record if the group has one, and
  otherwise with the \<open>baseValues\<close> of the group and with the point key value.
\<close>

definition spec_record :: "host \<Rightarrow> string \<Rightarrow> Point list \<Rightarrow> string \<Rightarrow> Point option" where
  "spec_record h pointKey grp k =
     find (\<lambda>item. js_String h (obj_get item pointKey) = k) (rev grp)"

definition spec_pointValue :: "host \<Rightarrow> string \<Rightarrow> Point list \<Rightarrow> string \<Rightarrow> jsval" where
  "spec_pointValue h pointKey data k =
     (case find (\<lambda>item. js_String h (obj_get item pointKey) = k) (rev data) of
        None \<Rightarrow> JUndefined | Some item \<Rightarrow> obj_get item pointKey)"

definition spec_point ::
  "host \<Rightarrow> string \<Rightarrow> string list \<Rightarrow> Point \<Rightarrow> Point list \<Rightarrow> Point list \<Rightarrow> string \<Rightarrow> Point" where
  "spec_point h pointKey groupKey defaultPoint data grp k =
     (case spec_record h pointKey grp k of
        Some item \<Rightarrow> spread defaultPoint item
      | None \<Rightarrow> spread (spread defaultPoint (make_baseValues groupKey grp))
                 [(pointKey, spec_pointValue h pointKey data k)])"

section \<open>Linear interpolation of two cells\<close>

subsection \<open>Numbers that rounding leaves as they are\<close>

lemma round_half_even_int: "round_half_even (of_int z) = z"
  by (simp add: round_half_even_def)

text \<open>
  An integer below \<open>2^53\<close> in absolute value, scaled by a power of two between
  \<open>2^-1022\<close> and \<open>2^971\<close>, is a double.
\<close>

lemma round_double_scaled_int:
  assumes "\<bar>n\<bar> < 2 ^ 53" and "- 1022 \<le> z" and "z \<le> 971"
  shows "round_double (of_int n * 2 powr of_int z) = Fin (of_int n * 2 powr of_int z)"
proof (cases "n = 0")
  case True
  then show ?thesis by (simp add: round_double_def)
next
  case False
  define r :: real where "r = of_int n * 2 powr of_int z"
  define a :: real where "a = \<bar>r\<bar>"
  define N :: real where "N = of_int \<bar>n\<bar>"
  define m where "m = \<lfloor>log 2 N\<rfloor>"
  have N1: "1 \<le> N" and N53: "N < 2 ^ 53"
    using False assms(1) unfolding N_def by (simp_all flip: of_int_abs)
  have a: "a = N * 2 powr of_int z" unfolding a_def r_def N_def by (simp add: abs_mult)
  have apos: "0 < a" using N1 a by simp
  have m0: "0 \<le> m" unfolding m_def using N1 by simp
  have "log 2 N < 53"
    using N1 N53 by (simp add: log_less_iff powr_realpow [symmetric])
  then have m52: "m \<le> 52" unfolding m_def by linarith
  have "log 2 a = log 2 N + of_int z"
    using N1 unfolding a by (simp add: log_mult)
  then have "\<lfloor>log 2 a\<rfloor> = m + z"
    unfolding m_def by simp
  then have e: "max \<lfloor>log 2 a\<rfloor> (- 1022) = m + z"
    using m0 assms(2) by simp
  define u :: real where "u = 2 powr of_int (m + z - 52)"
  have upos: "0 < u" unfolding u_def by simp
  have "u * 2 powr of_int (52 - m) = (2::real) powr (of_int (m + z - 52) + of_int (52 - m))"
    unfolding u_def by (simp only: powr_add)
  also have "of_int (m + z - 52) + of_int (52 - m) = (of_int z :: real)" by simp
  finally have "a = N * (u * 2 powr of_int (52 - m))" unfolding a by simp
  then have "a / u = N * 2 powr of_int (52 - m)" using upos by simp
  also have "(2::real) powr of_int (52 - m) = 2 ^ nat (52 - m)"
    using m52 by (simp add: powr_realpow [symmetric])
  finally have q: "a / u = of_int (\<bar>n\<bar> * 2 ^ nat (52 - m))"
    unfolding N_def by simp
  have v: "of_int (round_half_even (a / u)) * u = a"
    unfolding q round_half_even_int using q upos by (simp add: field_simps)
  have small: "a < 2 ^ 1024"
  proof -
    define P :: real where "P = 2 powr of_int 971"
    have Ppos: "0 < P" unfolding P_def by simp
    have "(2::real) powr of_int z \<le> P"
      unfolding P_def by (rule powr_mono) (use assms(3) in simp_all)
    then have "a \<le> N * P" unfolding a using N1 by (intro mult_left_mono) simp_all
    also have "\<dots> < 2 ^ 53 * P" using N53 Ppos by (intro mult_strict_right_mono)
    also have "\<dots> = 2 ^ 1024" unfolding P_def by simp
    finally show ?thesis .
  qed
  have rne: "r \<noteq> 0" using apos a_def by auto
  have s: "sgn r * a = r" unfolding a_def by (simp add: sgn_mult_abs)
  have "round_double r =
          (if 2 ^ 1024 \<le> of_int (round_half_even (a / u)) * u then Inf (0 < r)
           else Fin (sgn r * (of_int (round_half_even (a / u)) * u)))"
    unfolding round_double_def Let_def
    using rne by (simp only: a_def [symmetric] e u_def [symmetric] if_False)
  also have "\<dots> = Fin r"
    unfolding v s using small by (simp only: not_le [symmetric] if_False)
  finally show ?thesis unfolding r_def .
qed

lemma round_double_dyadic:
  assumes "\<bar>n\<bar> < 2 ^ 53" and "k \<le> 1022"
  shows "round_double (of_int n / 2 ^ k) = Fin (of_int n / 2 ^ k)"
proof -
  have "(2::real) powr of_int (- int k) = 1 / 2 ^ k"
    by (simp add: powr_minus powr_realpow divide_simps)
  then show ?thesis
    using round_double_scaled_int [of n "- int k"] assms by simp
qed

lemma round_double_pow2:
  assumes "j \<le> 1023"
  shows "round_double (2 ^ j) = Fin (2 ^ j)"
proof (cases "j \<le> 971")
  case True
  have "(2::real) powr of_int (int j) = 2 ^ j" by (simp add: powr_realpow)
  then show ?thesis using round_double_scaled_int [of 1 "int j"] True by simp
next
  case False
  define n :: int where "n = 2 ^ 52"
  have n: "real_of_int n = 2 ^ 52" unfolding n_def by simp
  have nb: "\<bar>n\<bar> < 2 ^ 53" unfolding n_def by simp
  have p: "(2::real) powr of_int (int (j - 52)) = 2 ^ (j - 52)" by (simp add: powr_realpow)
  have "52 + (j - 52) = j" using False by simp
  then have eq: "(2::real) ^ 52 * 2 ^ (j - 52) = 2 ^ j"
    using power_add [of "2::real" 52 "j - 52"] by (simp only:)
  have "round_double (of_int n * 2 powr of_int (int (j - 52))) =
        Fin (of_int n * 2 powr of_int (int (j - 52)))"
    by (rule round_double_scaled_int) (use nb assms in simp_all)
  then show ?thesis unfolding p n eq .
qed

text \<open>The sum of \<open>-2^1023\<close> and \<open>-2^1023\<close> is beyond the largest double.\<close>

lemma round_double_overflow: "round_double (- (2 ^ 1024)) = Inf False"
proof -
  define a :: real where "a = 2 ^ 1024"
  define u :: real where "u = 2 powr of_int (1024 - 52)"
  have "log 2 ((2::real) ^ n) = real n" for n by (simp add: log_nat_power)
  from this [of 1024] have l: "log 2 a = 1024" unfolding a_def by simp
  have e: "max \<lfloor>log 2 a\<rfloor> (- 1022) = 1024" unfolding l by simp
  have u: "u = 2 ^ 972" unfolding u_def by (simp add: powr_realpow [symmetric])
  have "a = 2 ^ 52 * u" unfolding a_def u by (simp flip: power_add)
  then have q: "a / u = of_int (2 ^ 52)" using u by simp
  have v: "of_int (round_half_even (a / u)) * u = a"
    unfolding q round_half_even_int using q u by simp
  have ane: "- a \<noteq> 0" and abs: "\<bar>- a\<bar> = a" unfolding a_def by simp_all
  have "round_double (- a) =
          (if 2 ^ 1024 \<le> of_int (round_half_even (a / u)) * u then Inf (0 < - a)
           else Fin (sgn (- a) * (of_int (round_half_even (a / u)) * u)))"
    unfolding round_double_def Let_def
    using ane by (simp only: abs e u_def [symmetric] if_False)
  also have "\<dots> = Inf False" unfolding v by (simp add: a_def)
  finally show ?thesis unfolding a_def .
qed

text \<open>
  Between \<open>1\<close> and \<open>2\<close> the doubles are \<open>2^-52\<close> apart. A number in this range is
  rounded to the nearest of them, and a number half way between two of them to the one
  with the even significand: \<open>1 + 2^-53\<close> becomes \<open>1\<close>, \<open>1 + 3 * 2^-53\<close> becomes
  \<open>1 + 2^-51\<close>.
\<close>

lemma round_double_binade:
  assumes "1 \<le> r" and "r < 2"
  shows "round_double r = Fin (of_int (round_half_even (r * 2 ^ 52)) / 2 ^ 52)"
proof -
  have l0: "0 \<le> log 2 r" using assms by simp
  have "log 2 r < 1" using assms by (simp add: log_less_iff)
  then have fl: "\<lfloor>log 2 r\<rfloor> = 0" using l0 by linarith
  have abs: "\<bar>r\<bar> = r" and ne: "r \<noteq> 0" and sg: "sgn r = 1" using assms by simp_all
  have e: "max \<lfloor>log 2 r\<rfloor> (- 1022) = 0" unfolding fl by simp
  define u :: real where "u = 2 powr of_int (0 - 52)"
  have u: "u = 1 / 2 ^ 52" unfolding u_def by (simp add: powr_minus powr_realpow [symmetric] divide_simps)
  define m where "m = round_half_even (r * 2 ^ 52)"
  have q: "r / u = r * 2 ^ 52" unfolding u by simp
  have "r * 2 ^ 52 < 2 * 2 ^ 52" using assms by simp
  then have "\<lfloor>r * 2 ^ 52\<rfloor> < 2 * 2 ^ 52" by (simp add: floor_less_iff)
  then have "m \<le> 2 * 2 ^ 52"
    unfolding m_def round_half_even_def Let_def by simp
  then have "real_of_int m \<le> real_of_int (2 * 2 ^ 52)" by (simp only: of_int_le_iff)
  then have "real_of_int m \<le> 2 * 2 ^ 52" by simp
  then have "real_of_int m * u \<le> 2" unfolding u by (simp add: field_simps)
  also have "(2::real) < 2 ^ 1024"
    using power_strict_increasing [of 1 1024 "2::real"] by simp
  finally have small: "\<not> 2 ^ 1024 \<le> real_of_int m * u" by simp
  have "round_double r =
      (if 2 ^ 1024 \<le> of_int (round_half_even (r / u)) * u then Inf (0 < r)
       else Fin (sgn r * (of_int (round_half_even (r / u)) * u)))"
    unfolding round_double_def Let_def
    using ne by (simp only: abs e u_def [symmetric] if_False)
  also have "\<dots> = Fin (real_of_int m * u)"
    unfolding q m_def [symmetric] sg using small by (simp only: if_False mult_1)
  finally show ?thesis unfolding m_def u by simp
qed

lemma round_double_ties_to_even:
  "round_double (1 + 1 / 2 ^ 53) = Fin 1"
  "round_double (1 + 3 / 2 ^ 53) = Fin (1 + 1 / 2 ^ 51)"
proof -
  have a: "round_half_even (2 ^ 52 + 1 / 2) = 2 ^ 52"
  proof -
    have "\<lfloor>(2::real) ^ 52 + 1 / 2\<rfloor> = 2 ^ 52" by (simp add: floor_eq_iff)
    then show ?thesis by (simp add: round_half_even_def Let_def)
  qed
  have b: "round_half_even (2 ^ 52 + 3 / 2) = 2 ^ 52 + 2"
  proof -
    have "\<lfloor>(2::real) ^ 52 + 3 / 2\<rfloor> = 2 ^ 52 + 1" by (simp add: floor_eq_iff)
    then show ?thesis by (simp add: round_half_even_def Let_def)
  qed
  have "(1 + 1 / 2 ^ 53) * 2 ^ 52 = (2::real) ^ 52 + 1 / 2" by simp
  then show "round_double (1 + 1 / 2 ^ 53) = Fin 1"
    using round_double_binade [of "1 + 1 / 2 ^ 53"] a by simp
  have "(1 + 3 / 2 ^ 53) * 2 ^ 52 = (2::real) ^ 52 + 3 / 2" by simp
  then show "round_double (1 + 3 / 2 ^ 53) = Fin (1 + 1 / 2 ^ 51)"
    using round_double_binade [of "1 + 3 / 2 ^ 53"] b by simp
qed

lemma round_double_minus: "round_double (- r) = js_neg (round_double r)"
  by (cases "0 < r") (auto simp: round_double_def Let_def)

lemma round_double_numeral:
  "(numeral w :: int) < 2 ^ 53 \<Longrightarrow> round_double (numeral w) = Fin (numeral w)"
  using round_double_dyadic [of "numeral w" 0] by simp

lemma round_double_neg_numeral:
  "(numeral w :: int) < 2 ^ 53 \<Longrightarrow> round_double (- numeral w) = Fin (- numeral w)"
  using round_double_dyadic [of "- numeral w" 0] by simp

lemma round_double_numeral_half:
  "(numeral w :: int) < 2 ^ 53 \<Longrightarrow> round_double (numeral w / 2) = Fin (numeral w / 2)"
  using round_double_dyadic [of "numeral w" 1] by simp

lemma round_double_numeral_quarter:
  "(numeral w :: int) < 2 ^ 53 \<Longrightarrow> round_double (numeral w / 4) = Fin (numeral w / 4)"
  using round_double_dyadic [of "numeral w" 2] by simp

lemma round_double_unit:
  "round_double 1 = Fin 1" "round_double (- 1) = Fin (- 1)"
  "round_double (1 / 2) = Fin (1 / 2)" "round_double (1 / 4) = Fin (1 / 4)"
  using round_double_dyadic [of 1 0] round_double_dyadic [of "- 1" 0]
    round_double_dyadic [of 1 1] round_double_dyadic [of 1 2] by simp_all

lemmas double_eval = round_double_numeral round_double_neg_numeral round_double_numeral_half
  round_double_numeral_quarter round_double_unit

lemma num_add_commute: "num_add p q = num_add q p"
  by (cases p; cases q) (auto simp: num_add_def add.commute)

lemma lerp_numbers:
  "js_less (Fin 0) t \<Longrightarrow> js_less t (Fin 1) \<Longrightarrow>
   lerp (JNum a) (JNum b) t = (JNum (num_add (num_mul (num_sub b a) t) a), [])"
  by (cases t) (auto simp: lerp_def js_num_eq_def)

subsection \<open>The clauses of lerp\<close>

text \<open>
  C4, as the code has it. \<open>ChartData.lerp(x, y, t)\<close>, the clauses in this order:
  \<open>t == 0\<close> returns \<open>x\<close>; \<open>t == 1\<close> returns \<open>y\<close>; \<open>t < 0\<close> or \<open>t > 1\<close> fails: the
  call reports the blend on the error console and returns \<open>null\<close>; otherwise, for a
  blend that is a number between 0 and 1, a \<open>null\<close> (or \<open>undefined\<close>) operand gives
  \<open>null\<close>; otherwise an operand that is not a number gives \<open>x\<close> unchanged; otherwise
  the result is \<open>x + (y - x) * t\<close> in the arithmetic of doubles, each operation
  rounded, with nothing written to the console in any but the third clause. For finite
  \<open>c\<close> and \<open>d\<close>, \<open>lerp(c, d, 0.5)\<close> is the arithmetic midpoint when the difference
  \<open>d - c\<close>, its half and the midpoint are doubles, so that no operation rounds or
  overflows. (A blend that is \<open>NaN\<close> is not covered.)
\<close>

theorem lerp_clauses:
  "lerp x y (Fin 0) = (x, []) \<and>
   lerp x y (Fin 1) = (y, []) \<and>
   (js_less t (Fin 0) \<or> js_less (Fin 1) t \<longrightarrow>
      lerp x y t = (JNull, [''ChartData: blend must be from 0 to 1 inclusive''])) \<and>
   (js_less (Fin 0) t \<and> js_less t (Fin 1) \<longrightarrow>
      (is_nullish x \<or> is_nullish y \<longrightarrow> lerp x y t = (JNull, [])) \<and>
      (\<not> is_nullish x \<and> \<not> is_nullish y \<and>
         (typeof x \<noteq> ''number'' \<or> typeof y \<noteq> ''number'') \<longrightarrow> lerp x y t = (x, [])) \<and>
      (\<forall>a b. x = JNum a \<and> y = JNum b \<longrightarrow>
         lerp x y t = (JNum (num_add a (num_mul (num_sub b a) t)), []))) \<and>
   (representable (d - c) \<and> representable ((d - c) / 2) \<and> representable ((c + d) / 2) \<longrightarrow>
      lerp (JNum (Fin c)) (JNum (Fin d)) (Fin (1 / 2)) = (JNum (Fin ((c + d) / 2)), []))"
proof -
  have outside: "js_less t (Fin 0) \<or> js_less (Fin 1) t \<Longrightarrow>
      \<not> js_num_eq t (Fin 0) \<and> \<not> js_num_eq t (Fin 1)"
    by (cases t) (auto simp: js_num_eq_def)
  have inside: "js_less (Fin 0) t \<and> js_less t (Fin 1) \<Longrightarrow>
      \<not> js_num_eq t (Fin 0) \<and> \<not> js_num_eq t (Fin 1) \<and>
      \<not> (js_less t (Fin 0) \<or> js_less (Fin 1) t)"
    by (cases t) (auto simp: js_num_eq_def)
  have c1: "lerp x y (Fin 0) = (x, [])" and c2: "lerp x y (Fin 1) = (y, [])"
    by (simp_all add: lerp_def js_num_eq_def)
  have c3: "js_less t (Fin 0) \<or> js_less (Fin 1) t \<longrightarrow>
      lerp x y t = (JNull, [''ChartData: blend must be from 0 to 1 inclusive''])"
    using outside by (auto simp: lerp_def)
  have c4: "js_less (Fin 0) t \<and> js_less t (Fin 1) \<longrightarrow>
      (is_nullish x \<or> is_nullish y \<longrightarrow> lerp x y t = (JNull, [])) \<and>
      (\<not> is_nullish x \<and> \<not> is_nullish y \<and>
         (typeof x \<noteq> ''number'' \<or> typeof y \<noteq> ''number'') \<longrightarrow> lerp x y t = (x, [])) \<and>
      (\<forall>a b. x = JNum a \<and> y = JNum b \<longrightarrow>
         lerp x y t = (JNum (num_add a (num_mul (num_sub b a) t)), []))"
  proof
    assume "js_less (Fin 0) t \<and> js_less t (Fin 1)"
    from inside [OF this] show "(is_nullish x \<or> is_nullish y \<longrightarrow> lerp x y t = (JNull, [])) \<and>
      (\<not> is_nullish x \<and> \<not> is_nullish y \<and>
         (typeof x \<noteq> ''number'' \<or> typeof y \<noteq> ''number'') \<longrightarrow> lerp x y t = (x, [])) \<and>
      (\<forall>a b. x = JNum a \<and> y = JNum b \<longrightarrow>
         lerp x y t = (JNum (num_add a (num_mul (num_sub b a) t)), []))"
      by (cases x; cases y) (auto simp: lerp_def num_add_commute)
  qed
  have c5: "representable (d - c) \<and> representable ((d - c) / 2) \<and>
      representable ((c + d) / 2) \<longrightarrow>
      lerp (JNum (Fin c)) (JNum (Fin d)) (Fin (1 / 2)) = (JNum (Fin ((c + d) / 2)), [])"
  proof
    assume r: "representable (d - c) \<and> representable ((d - c) / 2) \<and>
      representable ((c + d) / 2)"
    have s: "num_sub (Fin d) (Fin c) = Fin (d - c)"
      using r by (simp add: num_sub_def js_minus_def representable_def)
    have m: "num_mul (Fin (d - c)) (Fin (1 / 2)) = Fin ((d - c) / 2)"
      using r by (simp add: num_mul_def representable_def)
    have "num_add (Fin ((d - c) / 2)) (Fin c) = round_double ((d - c) / 2 + c)"
      by (simp add: num_add_def)
    also have "(d - c) / 2 + c = (c + d) / 2" by (simp add: field_simps)
    also have "round_double ((c + d) / 2) = Fin ((c + d) / 2)"
      using r by (simp add: representable_def)
    finally have a: "num_add (Fin ((d - c) / 2)) (Fin c) = Fin ((c + d) / 2)" .
    show "lerp (JNum (Fin c)) (JNum (Fin d)) (Fin (1 / 2)) = (JNum (Fin ((c + d) / 2)), [])"
      by (simp add: lerp_def js_num_eq_def s m a)
  qed
  show ?thesis using c1 c2 c3 c4 c5 by blast
qed

theorem lerp_clauses_witness:
  "lerp (JNum (Fin 10)) (JNum (Fin 20)) (Fin 2) =
     (JNull, [''ChartData: blend must be from 0 to 1 inclusive'']) \<and>
   lerp (JNum (Fin 10)) JNull (Fin (1 / 4)) = (JNull, []) \<and>
   lerp (JStr ''a'') (JNum (Fin 20)) (Fin (1 / 4)) = (JStr ''a'', []) \<and>
   lerp (JNum (Fin 10)) (JNum (Fin 20)) (Fin (1 / 4)) = (JNum (Fin (25 / 2)), []) \<and>
   lerp (JNum (Fin 10)) (JNum (Fin 20)) (Fin (1 / 2)) = (JNum (Fin 15), [])"
  using lerp_clauses [of "JNum (Fin 10)" "JNum (Fin 20)" "Fin 2" 20 10]
    lerp_clauses [of "JNum (Fin 10)" JNull "Fin (1 / 4)" 20 10]
    lerp_clauses [of "JStr ''a''" "JNum (Fin 20)" "Fin (1 / 4)" 20 10]
    lerp_clauses [of "JNum (Fin 10)" "JNum (Fin 20)" "Fin (1 / 4)" 20 10]
  by (simp add: num_add_def num_mul_def num_sub_def js_minus_def representable_def double_eval)

text \<open>
  The claim as the spec states it fails for the midpoint. The doubles \<open>2^1023\<close> and
  \<open>-2^1023\<close> have the midpoint \<open>0\<close>, but their difference overflows and \<open>lerp\<close> gives
  \<open>-Infinity\<close>; the numbers \<open>Infinity\<close> and \<open>1\<close> have the midpoint \<open>Infinity\<close>, and
  \<open>lerp\<close> gives \<open>NaN\<close>.
\<close>

theorem lerp_midpoint_counterexample:
  "representable (2 ^ 1023) \<and> representable (- (2 ^ 1023)) \<and>
   lerp (JNum (Fin (2 ^ 1023))) (JNum (Fin (- (2 ^ 1023)))) (Fin (1 / 2)) = (JNum (Inf False), []) \<and>
   (2 ^ 1023 + - (2 ^ 1023)) / 2 = (0::real) \<and>
   lerp (JNum (Inf True)) (JNum (Fin 1)) (Fin (1 / 2)) = (JNum NaN, []) \<and>
   num_div (num_add (Inf True) (Fin 1)) (Fin 2) = Inf True"
proof -
  have p: "representable (2 ^ 1023)"
    unfolding representable_def by (rule round_double_pow2) simp
  have n: "representable (- (2 ^ 1023))"
    using p unfolding representable_def round_double_minus by (simp only: js_neg.simps)
  have "(- (2 ^ 1023) - 2 ^ 1023 :: real) = - (2 ^ 1024)" by simp
  then have s: "num_sub (Fin (- (2 ^ 1023))) (Fin (2 ^ 1023)) = Inf False"
    unfolding num_sub_def js_minus_def using round_double_overflow by simp
  have l: "lerp (JNum (Fin (2 ^ 1023))) (JNum (Fin (- (2 ^ 1023)))) (Fin (1 / 2)) =
      (JNum (Inf False), [])"
    unfolding lerp_numbers [of "Fin (1 / 2)", simplified] s
    by (simp add: num_mul_def num_add_def)
  have i: "lerp (JNum (Inf True)) (JNum (Fin 1)) (Fin (1 / 2)) = (JNum NaN, [])"
    by (simp add: lerp_def js_num_eq_def num_sub_def num_mul_def num_add_def js_minus_def)
  have d: "num_div (num_add (Inf True) (Fin 1)) (Fin 2) = Inf True"
    by (simp add: num_div_def num_add_def)
  show ?thesis using p n l i d by simp
qed

text \<open>
  A blend that is \<open>NaN\<close> passes the two comparisons of the third clause: nothing is
  reported, and the later clauses decide.
\<close>

lemma lerp_NaN_blend:
  "lerp (JNum a) (JNum b) NaN = (JNum NaN, [])"
  "is_nullish x \<or> is_nullish y \<Longrightarrow> lerp x y NaN = (JNull, [])"
  by (cases "num_sub b a") (auto simp: lerp_def js_num_eq_def num_mul_def num_add_def)

section \<open>Column continuity\<close>

lemma map_of_createColumns:
  "distinct (map def_key cols) \<Longrightarrow> d \<in> set cols \<Longrightarrow>
   map_of (createColumns cols rs) (def_key d) = Some (Column (addContinuous d rs))"
  unfolding createColumns_def
proof (induction cols rule: rev_induct)
  case Nil
  then show ?case by simp
next
  case (snoc c cols)
  then show ?case by (auto simp: update_conv' image_iff)
qed

lemma first_value_continuous:
  "isValueContinuous (row_get (case find (\<lambda>row. \<not> is_nullish (row_get row k)) rs of
                                 None \<Rightarrow> [] | Some r \<Rightarrow> r) k) =
   (case filter (\<lambda>v. \<not> is_nullish v) (map (\<lambda>row. row_get row k) rs) of
      [] \<Rightarrow> False | v # _ \<Rightarrow> typeof v = ''number'')"
  by (induction rs) (auto simp: isValueContinuous_def row_get_def)

lemmas cd_eval = new_ChartData_def createRows_def createColumns_def addContinuous_def Column_def
  row_get_def isValueValid_def isValueContinuous_def Let_def getColumnData_def columnError_def
  column_defs_def

text \<open>
  C1, as the code has it. For a store built from rows and column definitions with
  distinct keys, a column declared with \<open>isContinuous: true\<close> is continuous, and a
  column declared without \<open>isContinuous\<close> is continuous exactly when the first non-null
  value of that column, in row order, is a number; it is not continuous when no row has
  a non-null value for it. (A column declared with \<open>isContinuous: false\<close> is not
  covered.)
\<close>

theorem isContinuous_inferred:
  assumes "distinct (map def_key defs)" and "d \<in> set defs"
    and "def_isContinuous d \<noteq> Some False"
  shows "\<exists>c. map_of (columns (new_ChartData rs defs)) (def_key d) = Some c \<and>
     key c = def_key d \<and>
     isContinuous c =
       (case def_isContinuous d of
          Some b \<Rightarrow> b
        | None \<Rightarrow>
           (case filter (\<lambda>v. \<not> is_nullish v)
                   (map (\<lambda>row. row_get row (def_key d)) (rows (new_ChartData rs defs))) of
              [] \<Rightarrow> False
            | v # _ \<Rightarrow> typeof v = ''number''))"
proof -
  let ?rs = "createRows rs"
  have m: "map_of (columns (new_ChartData rs defs)) (def_key d) = Some (Column (addContinuous d ?rs))"
    using assms(1,2) by (simp add: new_ChartData_def Let_def map_of_createColumns)
  have r: "rows (new_ChartData rs defs) = ?rs"
    by (simp add: new_ChartData_def Let_def)
  have k: "key (Column (addContinuous d ?rs)) = def_key d"
    by (simp add: Column_def addContinuous_def Let_def)
  have c: "isContinuous (Column (addContinuous d ?rs)) =
       (case def_isContinuous d of
          Some b \<Rightarrow> b
        | None \<Rightarrow>
           (case filter (\<lambda>v. \<not> is_nullish v) (map (\<lambda>row. row_get row (def_key d)) ?rs) of
              [] \<Rightarrow> False
            | v # _ \<Rightarrow> typeof v = ''number''))"
    using assms(3) first_value_continuous [of "def_key d" ?rs]
    by (cases "def_isContinuous d") (auto simp: Column_def addContinuous_def Let_def)
  show ?thesis using m k c unfolding r by blast
qed

text \<open>
  The example of the spec: \<open>Store([{a:1,b:'x'},{a:2,b:'y'}], [{key:'a'},{key:'b'}])\<close>
  infers column \<open>a\<close> continuous.
\<close>

theorem isContinuous_inferred_witness:
  "map_of (columns (new_ChartData
      [[(''a'', JNum (Fin 1)), (''b'', JStr ''x'')], [(''a'', JNum (Fin 2)), (''b'', JStr ''y'')]]
      [\<lparr>def_key = ''a'', def_label = None, def_isContinuous = None\<rparr>,
       \<lparr>def_key = ''b'', def_label = None, def_isContinuous = None\<rparr>])) ''a''
   = Some \<lparr>key = ''a'', label = None, isContinuous = True\<rparr>"
  using isContinuous_inferred [of
      "[\<lparr>def_key = ''a'', def_label = None, def_isContinuous = None\<rparr>,
        \<lparr>def_key = ''b'', def_label = None, def_isContinuous = None\<rparr>]"
      "\<lparr>def_key = ''a'', def_label = None, def_isContinuous = None\<rparr>"
      "[[(''a'', JNum (Fin 1)), (''b'', JStr ''x'')], [(''a'', JNum (Fin 2)), (''b'', JStr ''y'')]]"]
  by (simp add: cd_eval)

text \<open>
  The claim as the spec words it, "true only if every non-null value of the column is
  numeric", fails: in \<open>Store([{a:1},{a:'x'}], [{key:'a'}])\<close> column \<open>a\<close> is inferred
  continuous from its first value, and its second value is a string.
\<close>

theorem isContinuous_first_value_counterexample:
  "map_of (columns (new_ChartData
      [[(''a'', JNum (Fin 1))], [(''a'', JStr ''x'')]]
      [\<lparr>def_key = ''a'', def_label = None, def_isContinuous = None\<rparr>])) ''a''
     = Some \<lparr>key = ''a'', label = None, isContinuous = True\<rparr> \<and>
   getColumnData (new_ChartData
      [[(''a'', JNum (Fin 1))], [(''a'', JStr ''x'')]]
      [\<lparr>def_key = ''a'', def_label = None, def_isContinuous = None\<rparr>]) ''a''
     = Some [JNum (Fin 1), JStr ''x''] \<and>
   \<not> isValueContinuous (JStr ''x'')"
  by (simp add: cd_eval)

text \<open>
  An explicit \<open>isContinuous: false\<close> does not pass the test \<open>col.get('isContinuous')\<close>
  either, so the value is inferred again:
  \<open>Store([{a:1}], [{key:'a', isContinuous:false}])\<close> has column \<open>a\<close> continuous.
\<close>

lemma isContinuous_explicit_false_reinferred:
  "map_of (columns (new_ChartData [[(''a'', JNum (Fin 1))]]
      [\<lparr>def_key = ''a'', def_label = None, def_isContinuous = Some False\<rparr>])) ''a''
     = Some \<lparr>key = ''a'', label = None, isContinuous = True\<rparr>"
  by (simp add: cd_eval)

section \<open>Validation of columns and indices\<close>

lemmas frame_eval = frameAtIndex_def frameAtIndexInterpolated_def makeFrames_def indexError_def
  groupBy_def List_get_def js_num_eq_def getUniqueValues_def toOrderedSet_def js_minus_def
  getRowFromFrame_def interpolateRow_def List.map_filter_def

text \<open>
  C2 at its failing input. The store \<open>new ChartData([{a: 1}], [{key: 'a'}])\<close> has one
  frame for column \<open>a\<close>. \<open>frameAtIndex('a', 1)\<close> names an index equal to the frame
  count: the bound passed to \<open>_indexError\<close> is \<open>frames.size - 1 = 0\<close>, the test
  \<open>max && index > max\<close> is skipped for it, and the result is a store without rows, not
  \<open>null\<close>.
\<close>

theorem frameAtIndex_single_frame_beyond:
  "frameAtIndex
     (new_ChartData [[(''a'', JNum (Fin 1))]]
        [\<lparr>def_key = ''a'', def_label = None, def_isContinuous = None\<rparr>]) ''a'' (Fin 1)
   = Inr (Some \<lparr>columns = [(''a'', \<lparr>key = ''a'', label = None, isContinuous = True\<rparr>)],
               rows = []\<rparr>)"
  by (simp add: cd_eval frame_eval)

text \<open>
  On a store with one frame the same skipped test lets \<open>frameAtIndexInterpolated\<close>
  reach \<open>frames.get(1).groupBy\<close> with index \<open>0.5\<close>, a method call on
  \<open>undefined\<close>.
\<close>

lemma frameAtIndexInterpolated_single_frame_throws:
  "frameAtIndexInterpolated
     (new_ChartData [[(''a'', JNum (Fin 1)), (''b'', JNum (Fin 2))]]
        [\<lparr>def_key = ''a'', def_label = None, def_isContinuous = None\<rparr>,
         \<lparr>def_key = ''b'', def_label = None, def_isContinuous = None\<rparr>]) ''a'' ''b'' (Fin (1 / 2))
   = Inl TypeError"
  by (simp add: cd_eval frame_eval)

text \<open>
  What holds of the claim: an undeclared column gives \<open>null\<close> in every query, and
  \<open>frameAtIndex\<close> never throws and returns \<open>null\<close> for an index that is negative,
  fractional, or at least the frame count when the store does not have exactly one frame.
\<close>

lemma undeclared_column_null:
  assumes "columnError cd c"
  shows "getColumnData cd c = None" "getUniqueValues cd c = None" "makeFrames cd c = None"
    "frameAtIndex cd c index = Inr None"
    "frameAtIndexInterpolated cd c p index = Inr None"
    "frameAtIndexInterpolated cd p c index = Inr None"
    "c \<in> set (columnArgList cols) \<Longrightarrow>
       aggregation lib h operation cd memos cols = (JNull, memos)"
  using assms
  by (auto simp: getColumnData_def getUniqueValues_def makeFrames_def frameAtIndex_def
      frameAtIndexInterpolated_def aggregation_def columnListError_def Let_def list_ex_iff)

lemma frameAtIndex_never_throws: "frameAtIndex cd c index \<noteq> Inl e"
  by (auto simp: frameAtIndex_def makeFrames_def)

lemma frameAtIndex_invalid_index_null:
  assumes "r < 0 \<or> r \<noteq> of_int \<lfloor>r\<rfloor> \<or>
           (makeFrames cd c = Some frames \<and> length frames \<noteq> 1 \<and> real (length frames) \<le> r)"
  shows "frameAtIndex cd c (Fin r) = Inr None"
proof -
  have "r \<noteq> of_int \<lfloor>r\<rfloor> \<Longrightarrow> of_int \<lfloor>r + 1 / 2\<rfloor> \<noteq> r"
    by (metis floor_of_int)
  then show ?thesis using assms
    by (auto simp: frameAtIndex_def indexError_def js_num_eq_def makeFrames_def
        split: if_splits)
qed

lemma frameAtIndexInterpolated_negative_null:
  "r < 0 \<Longrightarrow> frameAtIndexInterpolated cd c p (Fin r) = Inr None"
  by (simp add: frameAtIndexInterpolated_def indexError_def)

section \<open>Interpolation at an integral index\<close>

text \<open>
  C6. For distinct declared columns \<open>col\<close> and \<open>primary\<close> and every integral
  index \<open>i\<close>, \<open>frameAtIndexInterpolated(col, primary, i)\<close> is the result of
  \<open>frameAtIndex(col, i)\<close>.
\<close>

theorem frameAtIndexInterpolated_integral:
  assumes "\<not> columnError cd col" and "\<not> columnError cd primary" and "col \<noteq> primary"
  shows "frameAtIndexInterpolated cd col primary (Fin (of_int i)) =
         frameAtIndex cd col (Fin (of_int i))"
proof (cases "i < 0")
  case True
  then show ?thesis
    by (simp add: frameAtIndexInterpolated_def frameAtIndex_def indexError_def)
next
  case False
  have "\<lfloor>(of_int i :: real) + 1 / 2\<rfloor> = i" by linarith
  then show ?thesis using assms False
    by (simp add: frameAtIndexInterpolated_def indexError_def js_num_eq_def)
qed

theorem frameAtIndexInterpolated_integral_witness:
  "frameAtIndexInterpolated
     (new_ChartData [[(''a'', JNum (Fin 1)), (''b'', JNum (Fin 2))], [(''a'', JNum (Fin 3)), (''b'', JNum (Fin 2))]]
        [\<lparr>def_key = ''a'', def_label = None, def_isContinuous = None\<rparr>,
         \<lparr>def_key = ''b'', def_label = None, def_isContinuous = None\<rparr>]) ''a'' ''b'' (Fin 1)
   = Inr (Some \<lparr>columns = [(''a'', \<lparr>key = ''a'', label = None, isContinuous = True\<rparr>),
                            (''b'', \<lparr>key = ''b'', label = None, isContinuous = True\<rparr>)],
               rows = [[(''a'', JNum (Fin 3)), (''b'', JNum (Fin 2))]]\<rparr>)"
  using frameAtIndexInterpolated_integral [of
     "new_ChartData [[(''a'', JNum (Fin 1)), (''b'', JNum (Fin 2))], [(''a'', JNum (Fin 3)), (''b'', JNum (Fin 2))]]
        [\<lparr>def_key = ''a'', def_label = None, def_isContinuous = None\<rparr>,
         \<lparr>def_key = ''b'', def_label = None, def_isContinuous = None\<rparr>]" "''a''" "''b''" 1]
  by (simp add: cd_eval frame_eval)

section \<open>Cells are scalars\<close>

lemma cells_valid_new: "cells_valid (new_ChartData rs defs)"
  by (auto simp: cells_valid_def new_ChartData_def Let_def createRows_def list_all_iff
      isValueValid_def split: if_splits)

lemma frameAtIndex_constructs:
  "frameAtIndex cd c index = Inr (Some cd') \<Longrightarrow> \<exists>rs defs. cd' = new_ChartData rs defs"
  by (auto simp: frameAtIndex_def split: if_splits option.splits)

lemma frameAtIndexInterpolated_constructs:
  "frameAtIndexInterpolated cd c p index = Inr (Some cd') \<Longrightarrow> \<exists>rs defs. cd' = new_ChartData rs defs"
  by (auto simp: frameAtIndexInterpolated_def Let_def dest: frameAtIndex_constructs
      split: if_splits option.splits)

lemma reachable_constructed: "reachable cd \<Longrightarrow> \<exists>rs defs. cd = new_ChartData rs defs"
  by (induction rule: reachable.induct)
    (auto simp: updateRows_def mapRows_def
      dest: frameAtIndex_constructs frameAtIndexInterpolated_constructs)

lemma isValueValid_cases: "isValueValid v \<longleftrightarrow> (\<exists>s. v = JStr s) \<or> (\<exists>n. v = JNum n) \<or> v = JNull"
  by (cases v) (auto simp: isValueValid_def)

text \<open>
  C10. Every cell of every reachable store is a string, a number or \<open>null\<close>: each
  of the deriving methods ends in the constructor, which replaces every other value by
  \<open>null\<close>, whatever rows the updater or the mapper returns.
\<close>

theorem reachable_cells_scalar:
  assumes "reachable cd" and "row \<in> set (rows cd)" and "(k, v) \<in> set row"
  shows "(\<exists>s. v = JStr s) \<or> (\<exists>n. v = JNum n) \<or> v = JNull"
proof -
  from assms(1) have "cells_valid cd"
    using reachable_constructed cells_valid_new by blast
  with assms(2,3) have "isValueValid v"
    by (auto simp: cells_valid_def list_all_iff)
  then show ?thesis by (simp add: isValueValid_cases)
qed

text \<open>
  A mapper that returns a row with an object in it: the new store holds \<open>null\<close>
  there.
\<close>

theorem reachable_cells_scalar_witness:
  "rows (mapRows (\<lambda>row i. [(''a'', JObj [])])
      (new_ChartData [[(''a'', JNum (Fin 1))]]
         [\<lparr>def_key = ''a'', def_label = None, def_isContinuous = None\<rparr>])) = [[(''a'', JNull)]] \<and>
   ((\<exists>s. JNull = JStr s) \<or> (\<exists>n. JNull = JNum n) \<or> JNull = JNull)"
  using reachable_cells_scalar [OF by_mapRows [OF construct], of
      "[(''a'', JNull)]" "\<lambda>row i. [(''a'', JObj [])]" "[[(''a'', JNum (Fin 1))]]"
      "[\<lparr>def_key = ''a'', def_label = None, def_isContinuous = None\<rparr>]" "''a''" JNull]
  by (simp add: mapRows_def cd_eval)

section \<open>Aggregates\<close>

lemma foldl_append_concat:
  "foldl (\<lambda>values row. values @ f row) acc rs = acc @ concat (map f rs)"
  by (induction rs arbitrary: acc) auto

lemma entries_filter: "filter (\<lambda>val. \<not> is_nullish val) (map snd (filter (\<lambda>(k, val). k \<in> S) row)) =
    concat (map (\<lambda>(k, v). if k \<in> S then if \<not> is_nullish v then [v] else [] else []) row)"
  by (induction row) auto

lemma contributing_values:
  "filter (\<lambda>val. \<not> is_nullish val) (allValuesForColumns cd columnList) = spec_union_values cd columnList"
  unfolding allValuesForColumns_def spec_union_values_def foldl_append_concat
  by (simp add: filter_concat comp_def entries_filter)

lemma union_values_all_null:
  assumes "\<forall>row \<in> set (rows cd). \<forall>v. (k, v) \<in> set row \<longrightarrow> is_nullish v"
  shows "spec_union_values cd [k] = []"
  using assms by (auto simp: spec_union_values_def)

text \<open>
  The first call of an aggregate for a key of the cache computes the value and stores it:
  for declared columns the value is the operation applied to the union of the non-null
  values of the named columns, and \<open>null\<close> when \<open>isNaN\<close> holds of that. A call that
  finds its key returns the stored value.
\<close>

lemma aggregation_first_call:
  assumes "\<not> columnListError cd (columnArgList cols)"
    and "map_of memos (memo_key operation (columnArgList cols)) = None"
  shows "aggregation lib h operation cd memos cols =
     (let result = ImmutableMath lib operation (spec_union_values cd (columnArgList cols));
          v = (if isNaN h result then JNull else result)
      in (v, memos @ [(memo_key operation (columnArgList cols), v)]))"
  using assms by (simp add: aggregation_def memoize_def Let_def contributing_values)

lemma aggregation_cached:
  assumes "\<not> columnListError cd (columnArgList cols)"
    and "map_of memos (memo_key operation (columnArgList cols)) = Some cached"
  shows "aggregation lib h operation cd memos cols = (cached, memos)"
  using assms by (simp add: aggregation_def memoize_def Let_def)

text \<open>
  On the empty cache of a new store, each of the five aggregates of one declared column
  or of a list of declared columns is its operation on the union of their non-null
  values.
\<close>

lemma aggregates_of_new_store:
  assumes "\<not> columnError cd k"
  shows
    "fst (min_of lib h cd [] (ColumnName k)) =
       (let result = ImmutableMath lib Min (spec_union_values cd [k])
        in if isNaN h result then JNull else result)"
    "fst (max_of lib h cd [] (ColumnName k)) =
       (let result = ImmutableMath lib Max (spec_union_values cd [k])
        in if isNaN h result then JNull else result)"
    "fst (sum_of lib h cd [] (ColumnName k)) =
       (let result = ImmutableMath lib Sum (spec_union_values cd [k])
        in if isNaN h result then JNull else result)"
    "fst (average lib h cd [] (ColumnName k)) =
       (let result = ImmutableMath lib Average (spec_union_values cd [k])
        in if isNaN h result then JNull else result)"
    "fst (median lib h cd [] (ColumnName k)) =
       (let result = ImmutableMath lib Median (spec_union_values cd [k])
        in if isNaN h result then JNull else result)"
proof -
  have e: "\<not> columnListError cd (columnArgList (ColumnName k))"
    using assms by (simp add: columnListError_def)
  show
    "fst (min_of lib h cd [] (ColumnName k)) =
       (let result = ImmutableMath lib Min (spec_union_values cd [k])
        in if isNaN h result then JNull else result)"
    "fst (max_of lib h cd [] (ColumnName k)) =
       (let result = ImmutableMath lib Max (spec_union_values cd [k])
        in if isNaN h result then JNull else result)"
    "fst (sum_of lib h cd [] (ColumnName k)) =
       (let result = ImmutableMath lib Sum (spec_union_values cd [k])
        in if isNaN h result then JNull else result)"
    "fst (average lib h cd [] (ColumnName k)) =
       (let result = ImmutableMath lib Average (spec_union_values cd [k])
        in if isNaN h result then JNull else result)"
    "fst (median lib h cd [] (ColumnName k)) =
       (let result = ImmutableMath lib Median (spec_union_values cd [k])
        in if isNaN h result then JNull else result)"
    unfolding min_of_def max_of_def sum_of_def average_def median_def
    by (simp_all add: aggregation_first_call [OF e] Let_def)
qed

lemma aggregates_of_new_store_list:
  assumes "\<not> list_ex (columnError cd) ks"
  shows
    "fst (min_of lib h cd [] (ColumnNames ks)) =
       (let result = ImmutableMath lib Min (spec_union_values cd ks)
        in if isNaN h result then JNull else result)"
    "fst (max_of lib h cd [] (ColumnNames ks)) =
       (let result = ImmutableMath lib Max (spec_union_values cd ks)
        in if isNaN h result then JNull else result)"
    "fst (sum_of lib h cd [] (ColumnNames ks)) =
       (let result = ImmutableMath lib Sum (spec_union_values cd ks)
        in if isNaN h result then JNull else result)"
    "fst (average lib h cd [] (ColumnNames ks)) =
       (let result = ImmutableMath lib Average (spec_union_values cd ks)
        in if isNaN h result then JNull else result)"
    "fst (median lib h cd [] (ColumnNames ks)) =
       (let result = ImmutableMath lib Median (spec_union_values cd ks)
        in if isNaN h result then JNull else result)"
proof -
  have e: "\<not> columnListError cd (columnArgList (ColumnNames ks))"
    using assms by (simp add: columnListError_def)
  show
    "fst (min_of lib h cd [] (ColumnNames ks)) =
       (let result = ImmutableMath lib Min (spec_union_values cd ks)
        in if isNaN h result then JNull else result)"
    "fst (max_of lib h cd [] (ColumnNames ks)) =
       (let result = ImmutableMath lib Max (spec_union_values cd ks)
        in if isNaN h result then JNull else result)"
    "fst (sum_of lib h cd [] (ColumnNames ks)) =
       (let result = ImmutableMath lib Sum (spec_union_values cd ks)
        in if isNaN h result then JNull else result)"
    "fst (average lib h cd [] (ColumnNames ks)) =
       (let result = ImmutableMath lib Average (spec_union_values cd ks)
        in if isNaN h result then JNull else result)"
    "fst (median lib h cd [] (ColumnNames ks)) =
       (let result = ImmutableMath lib Median (spec_union_values cd ks)
        in if isNaN h result then JNull else result)"
    unfolding min_of_def max_of_def sum_of_def average_def median_def
    by (simp_all add: aggregation_first_call [OF e] Let_def)
qed

text \<open>
  On the empty cache of a new store, for a declared column \<open>k\<close> whose values are all
  \<open>null\<close> or absent, \<open>sum(k)\<close> is \<open>0\<close> and \<open>min(k)\<close>, \<open>max(k)\<close>, \<open>average(k)\<close>
  and \<open>median(k)\<close> are \<open>null\<close>.
\<close>

lemma aggregates_all_null_new_store:
  assumes "\<not> columnError cd k"
    and "\<forall>row \<in> set (rows cd). \<forall>v. (k, v) \<in> set row \<longrightarrow> is_nullish v"
  shows "fst (sum_of lib h cd [] (ColumnName k)) = JNum (Fin 0)"
    "fst (min_of lib h cd [] (ColumnName k)) = JNull"
    "fst (max_of lib h cd [] (ColumnName k)) = JNull"
    "fst (average lib h cd [] (ColumnName k)) = JNull"
    "fst (median lib h cd [] (ColumnName k)) = JNull"
  unfolding aggregates_of_new_store [OF assms(1)] union_values_all_null [OF assms(2)]
  by (simp_all add: ImmutableMath_def isNaN_def)

text \<open>
  The key of the cache is the name of the operation, a dot and the column names joined
  with commas, so the list of the columns \<open>a\<close> and \<open>b\<close> and the one column named
  \<open>a,b\<close> have the same key.
\<close>

lemma memo_key_collision:
  "memo_key operation [''a'', ''b''] = memo_key operation [''a,b'']"
  by (simp add: memo_key_def)

text \<open>
  C5 fails in the code. The store \<open>[{a: 1, b: 2, 'a,b': null}]\<close> declares the columns
  \<open>a\<close>, \<open>b\<close> and \<open>a,b\<close>; the column \<open>a,b\<close> has no value. After \<open>sum(['a', 'b'])\<close>,
  which is \<open>3\<close>, the call \<open>sum('a,b')\<close> on the same store finds the key \<open>sum.a,b\<close> in
  the cache and returns \<open>3\<close>; on a new store it returns \<open>0\<close>. The library here adds
  the values up with \<open>+\<close>, starting from \<open>0\<close>.
\<close>

theorem sum_cached_under_colliding_key:
  "(let h = \<lparr>number_to_string = (\<lambda>r. []), string_to_number = (\<lambda>s. NaN),
              engine_sort = (\<lambda>cmp xs. xs)\<rparr>;
        lib = (\<lambda>operation vals. foldl (js_add h) (JNum (Fin 0)) vals);
        cd = new_ChartData
               [[(''a'', JNum (Fin 1)), (''b'', JNum (Fin 2)), (''a,b'', JNull)]]
               [\<lparr>def_key = ''a'', def_label = None, def_isContinuous = None\<rparr>,
                \<lparr>def_key = ''b'', def_label = None, def_isContinuous = None\<rparr>,
                \<lparr>def_key = ''a,b'', def_label = None, def_isContinuous = None\<rparr>];
        first = sum_of lib h cd [] (ColumnNames [''a'', ''b'']);
        second = sum_of lib h cd (snd first) (ColumnName ''a,b'')
    in columnError cd ''a,b'' = False \<and>
       getColumnData cd ''a,b'' = Some [JNull] \<and>
       fst first = JNum (Fin 3) \<and>
       snd first = [(''sum.a,b'', JNum (Fin 3))] \<and>
       fst second = JNum (Fin 3) \<and>
       fst (sum_of lib h cd [] (ColumnName ''a,b'')) = JNum (Fin 0))"
  by (simp add: cd_eval sum_of_def aggregation_def columnListError_def memoize_def memo_key_def
      allValuesForColumns_def ImmutableMath_def isNaN_def js_add_def num_add_def double_eval)

section \<open>Interpolation between two frames\<close>

lemma toOrderedSet_snoc:
  "toOrderedSet (xs @ [x]) = (if x \<in> set (toOrderedSet xs) then toOrderedSet xs else toOrderedSet xs @ [x])"
  by (simp add: toOrderedSet_def)

lemma toOrderedSet_set_distinct: "set (toOrderedSet xs) = set xs \<and> distinct (toOrderedSet xs)"
proof (induction xs rule: rev_induct)
  case Nil
  show ?case by (simp add: toOrderedSet_def)
next
  case (snoc x xs)
  then show ?case by (auto simp: toOrderedSet_snoc)
qed

lemma groupBy_snoc:
  "groupBy f (xs @ [x]) =
     (case map_of (groupBy f xs) (f x) of
        None \<Rightarrow> groupBy f xs @ [(f x, [x])]
      | Some g \<Rightarrow> AList.update (f x) (g @ [x]) (groupBy f xs))"
  unfolding groupBy_def by simp

lemma map_of_groupBy:
  "map_of (groupBy f xs) k =
     (if filter (\<lambda>x. f x = k) xs = [] then None else Some (filter (\<lambda>x. f x = k) xs))"
proof (induction xs rule: rev_induct)
  case Nil
  show ?case by (simp add: groupBy_def)
next
  case (snoc x xs)
  show ?case
  proof (cases "map_of (groupBy f xs) (f x)")
    case None
    then show ?thesis using snoc by (auto simp: groupBy_snoc map_add_def split: if_splits)
  next
    case (Some g)
    then show ?thesis using snoc by (auto simp: groupBy_snoc update_conv' split: if_splits)
  qed
qed

lemma groupBy_distinct: "distinct (map fst (groupBy f xs))"
proof (induction xs rule: rev_induct)
  case Nil
  show ?case by (simp add: groupBy_def)
next
  case (snoc x xs)
  show ?case
  proof (cases "map_of (groupBy f xs) (f x)")
    case None
    then have "groupBy f (xs @ [x]) = groupBy f xs @ [(f x, [x])]"
      by (simp add: groupBy_snoc)
    moreover have "f x \<notin> fst ` set (groupBy f xs)"
      using None by (simp add: map_of_eq_None_iff)
    ultimately show ?thesis using snoc by simp
  next
    case (Some g)
    then show ?thesis using snoc by (simp add: groupBy_snoc distinct_update)
  qed
qed

lemma groupBy_member:
  assumes "g \<in> set (map snd (groupBy f xs))"
  shows "set g \<subseteq> set xs"
proof -
  from assms obtain k where "(k, g) \<in> set (groupBy f xs)" by auto
  then have "map_of (groupBy f xs) k = Some g"
    using groupBy_distinct [of f xs] by simp
  then have "g = filter (\<lambda>x. f x = k) xs"
    by (simp add: map_of_groupBy split: if_splits)
  then show ?thesis by auto
qed

lemma find_filter: "find P xs = (case filter P xs of [] \<Rightarrow> None | x # _ \<Rightarrow> Some x)"
  by (induction xs) auto

lemma getRowFromFrame_groupBy:
  "getRowFromFrame (groupBy (\<lambda>ii. row_get ii p) frame) pv = find (\<lambda>row. row_get row p = pv) frame"
  by (simp add: getRowFromFrame_def map_of_groupBy find_filter split: list.splits)

lemma foldl_update_distinct:
  "distinct (map fst (acc @ kvs)) \<Longrightarrow>
   foldl (\<lambda>m (k, v). AList.update k v m) acc kvs = acc @ kvs"
proof (induction kvs arbitrary: acc)
  case Nil
  then show ?case by simp
next
  case (Cons kv kvs)
  obtain k v where kv: "kv = (k, v)" by (cases kv)
  have "AList.update k v acc = acc @ [(k, v)]" if "k \<notin> fst ` set acc" for acc :: "('a \<times> 'b) list"
    using that by (induction acc) auto
  then have "AList.update k v acc = acc @ [(k, v)]"
    using Cons.prems kv by auto
  then show ?case using Cons.IH [of "acc @ [(k, v)]"] Cons.prems kv by simp
qed


lemma foldl_update_distinct_Nil:
  "distinct (map fst kvs) \<Longrightarrow> foldl (\<lambda>m (k, v). AList.update k v m) [] kvs = kvs"
  using foldl_update_distinct [of "[]" kvs] by simp

lemma set_update_subset: "set (AList.update k v al) \<subseteq> insert (k, v) (set al)"
  by (induction al) auto

lemma createColumns_wf:
  "distinct (map fst (createColumns cols rs)) \<and> (\<forall>(k, c) \<in> set (createColumns cols rs). key c = k)"
proof (induction cols rule: rev_induct)
  case Nil
  show ?case by (simp add: createColumns_def)
next
  case (snoc c cols)
  have step: "createColumns (cols @ [c]) rs =
      AList.update (def_key c) (Column (addContinuous c rs)) (createColumns cols rs)"
    by (simp add: createColumns_def)
  have k: "key (Column (addContinuous c rs)) = def_key c"
    by (simp add: Column_def addContinuous_def Let_def)
  show ?case unfolding step
    using snoc k set_update_subset [of "def_key c" "Column (addContinuous c rs)" "createColumns cols rs"]
    by (auto simp: distinct_update)
qed

lemma row_get_valid:
  "\<forall>(k, v) \<in> set row. isValueValid v \<Longrightarrow> isValueValid (row_get row k) \<or> map_of row k = None"
  by (auto simp: row_get_def dest: map_of_SomeD split: option.splits)

lemma lerp_valid:
  assumes "isValueValid a \<or> a = JUndefined" and "isValueValid b \<or> b = JUndefined"
    and "0 < t" and "t < 1"
  shows "isValueValid (fst (lerp a b (Fin t)))"
  using assms by (cases a; cases b) (auto simp: lerp_def js_num_eq_def isValueValid_def)

lemma interpolateRow_map:
  assumes "distinct (map fst cols)" and "\<forall>(k, c) \<in> set cols. key c = k"
  shows "interpolateRow cols p blend rowA rowB =
     map (\<lambda>(k, c). (k, if isContinuous c \<and> k \<noteq> p
                        then fst (lerp (row_get rowA k) (row_get rowB k) blend)
                        else row_get rowA k)) cols"
proof -
  let ?g = "\<lambda>c. if isContinuous c \<and> key c \<noteq> p
                then fst (lerp (row_get rowA (key c)) (row_get rowB (key c)) blend)
                else row_get rowA (key c)"
  let ?kvs = "map (\<lambda>(k, c). (key c, ?g c)) cols"
  have "interpolateRow cols p blend rowA rowB = foldl (\<lambda>m (k, v). AList.update k v m) [] ?kvs"
    by (simp add: interpolateRow_def foldl_map case_prod_unfold)
  moreover have keys: "map fst ?kvs = map fst cols"
    using assms(2) by (induction cols) auto
  moreover have "distinct (map fst ?kvs)"
    unfolding keys by (rule assms(1))
  ultimately have "interpolateRow cols p blend rowA rowB = ?kvs"
    by (simp only: foldl_update_distinct_Nil)
  moreover have "?kvs = map (\<lambda>(k, c). (k, if isContinuous c \<and> k \<noteq> p
                        then fst (lerp (row_get rowA k) (row_get rowB k) blend)
                        else row_get rowA k)) cols"
    using assms(2) by (induction cols) auto
  ultimately show ?thesis by simp
qed

lemma sanitize_interpolateRow:
  assumes "distinct (map fst cols)" and "\<forall>(k, c) \<in> set cols. key c = k"
    and va: "\<forall>(k, v) \<in> set rowA. isValueValid v" and vb: "\<forall>(k, v) \<in> set rowB. isValueValid v"
    and t: "0 < t" "t < 1"
  shows "map (\<lambda>(k, cell). (k, if isValueValid cell then cell else JNull))
           (interpolateRow cols p (Fin t) rowA rowB) =
         spec_interpolated_row cols p (Fin t) rowA rowB"
proof -
  have ok: "isValueValid (row_get row k) \<or> row_get row k = JUndefined"
    if "\<forall>(k, v) \<in> set row. isValueValid v" for row k
    using row_get_valid [OF that, of k] by (auto simp: row_get_def)
  have l: "isValueValid (fst (lerp (row_get rowA k) (row_get rowB k) (Fin t)))" for k
    using lerp_valid [OF ok [OF va] ok [OF vb] t] .
  have e: "(if isValueValid (row_get rowA k) then row_get rowA k else JNull) =
        (case map_of rowA k of None \<Rightarrow> JNull | Some v \<Rightarrow> v)" for k
    using row_get_valid [OF va, of k]
    by (auto simp: row_get_def isValueValid_def split: option.splits)
  show ?thesis
    unfolding interpolateRow_map [OF assms(1,2)] spec_interpolated_row_def
    by (simp add: case_prod_unfold l e [symmetric])
qed

lemma nonintegral_index:
  fixes r :: real
  assumes "r \<noteq> of_int \<lfloor>r\<rfloor>" and "0 \<le> r" and "r \<le> real n - 1"
  shows "of_int \<lfloor>r + 1 / 2\<rfloor> \<noteq> r"
    and "nat \<lfloor>r\<rfloor> < n" and "Suc (nat \<lfloor>r\<rfloor>) < n"
    and "\<lceil>r\<rceil> = \<lfloor>r\<rfloor> + 1" and "0 \<le> \<lfloor>r\<rfloor>"
    and "0 < r - of_int \<lfloor>r\<rfloor>" and "r - of_int \<lfloor>r\<rfloor> < 1"
proof -
  show "of_int \<lfloor>r + 1 / 2\<rfloor> \<noteq> r" using assms(1) by (metis floor_of_int)
  show c: "\<lceil>r\<rceil> = \<lfloor>r\<rfloor> + 1" using assms(1) by (simp add: ceiling_altdef)
  show f0: "0 \<le> \<lfloor>r\<rfloor>" using assms(2) by simp
  have "r \<le> of_int (int n - 1)" using assms(3) by simp
  then have "\<lceil>r\<rceil> \<le> int n - 1" by (rule ceiling_le)
  then have "\<lfloor>r\<rfloor> + 1 < int n" using c by linarith
  then show "Suc (nat \<lfloor>r\<rfloor>) < n" using f0 by linarith
  then show "nat \<lfloor>r\<rfloor> < n" by simp
  show "0 < r - of_int \<lfloor>r\<rfloor>" using assms(1) of_int_floor_le [of r] by linarith
  show "r - of_int \<lfloor>r\<rfloor> < 1" by linarith
qed

lemma List_get_nat: "i < length xs \<Longrightarrow> List_get xs (Fin (real i)) = Some (xs ! i)"
  by (simp add: List_get_def)

lemma frameAtIndexInterpolated_eval:
  assumes cols: "\<not> columnError cd frameColumn" "\<not> columnError cd primaryColumn"
      "frameColumn \<noteq> primaryColumn"
    and frames: "makeFrames cd frameColumn = Some frames"
    and r: "r \<noteq> of_int \<lfloor>r\<rfloor>" "0 \<le> r" "r \<le> real (length frames) - 1"
  shows "frameAtIndexInterpolated cd frameColumn primaryColumn (Fin r) =
     Inr (Some (new_ChartData
       (List.map_filter (\<lambda>primaryValue.
           case find (\<lambda>row. row_get row primaryColumn = primaryValue) (frames ! nat \<lfloor>r\<rfloor>) of
             None \<Rightarrow> None
           | Some rowA \<Rightarrow>
              (case find (\<lambda>row. row_get row primaryColumn = primaryValue) (frames ! Suc (nat \<lfloor>r\<rfloor>)) of
                 None \<Rightarrow> None
               | Some rowB \<Rightarrow>
                   Some (interpolateRow (columns cd) primaryColumn (Fin (r - of_int \<lfloor>r\<rfloor>)) rowA rowB)))
          (toOrderedSet (map (\<lambda>ii. row_get ii primaryColumn) (rows cd))))
       (column_defs cd)))"
proof -
  note n = nonintegral_index [OF r]
  have i1: "\<not> indexError (Fin r) None False"
    using r(2) by (simp add: indexError_def)
  have i2: "\<not> js_num_eq (Fin r) (Math_round (Fin r))"
    using n(1) by (auto simp: js_num_eq_def)
  have i3: "\<not> indexError (Fin r) (Some (Fin (real (length frames) - 1))) False"
    using r(2,3) by (simp add: indexError_def)
  have u: "getUniqueValues cd primaryColumn =
      Some (toOrderedSet (map (\<lambda>ii. row_get ii primaryColumn) (rows cd)))"
    using cols(2) by (simp add: getUniqueValues_def)
  have fl: "of_int \<lfloor>r\<rfloor> = real (nat \<lfloor>r\<rfloor>)" using n(5) by simp
  have ce: "of_int \<lceil>r\<rceil> = real (Suc (nat \<lfloor>r\<rfloor>))" using n(4,5) by simp
  have ga: "List_get frames (Fin (of_int \<lfloor>r\<rfloor>)) = Some (frames ! nat \<lfloor>r\<rfloor>)"
    using List_get_nat [OF n(2)] by (simp only: fl)
  have gb: "List_get frames (Fin (of_int \<lceil>r\<rceil>)) = Some (frames ! Suc (nat \<lfloor>r\<rfloor>))"
    using List_get_nat [OF n(3)] by (simp only: ce)
  have bl: "js_minus (Fin r) (Fin (of_int \<lfloor>r\<rfloor>)) = Fin (r - of_int \<lfloor>r\<rfloor>)"
    by (simp add: js_minus_def)
  show ?thesis
    unfolding frameAtIndexInterpolated_def
    using cols i1 i2 i3
    by (simp add: frames u ga gb bl Let_def getRowFromFrame_groupBy cong: option.case_cong)
qed

text \<open>
  C3, as the code has it. For a reachable store, distinct declared columns
  \<open>frameColumn\<close> and \<open>primaryColumn\<close> and a non-integral index \<open>r\<close> between
  \<open>0\<close> and the last frame index, with \<open>a = floor r\<close> and \<open>blend = r - a\<close>,
  \<open>frameAtIndexInterpolated\<close> returns a store with exactly one row per distinct primary
  value of the whole data set that has a matching row in frame \<open>a\<close> and in frame
  \<open>a + 1\<close>; the first matching row of each frame is used. In that row every declared
  column holds \<open>lerp(valueA, valueB, blend)\<close> if the column is continuous and is not
  the primary column, and the value of the row of frame \<open>a\<close> otherwise, which is
  \<open>null\<close> when that row does not have the column.
\<close>

theorem frameAtIndexInterpolated_rows:
  assumes reach: "reachable cd"
    and cols: "\<not> columnError cd frameColumn" "\<not> columnError cd primaryColumn"
      "frameColumn \<noteq> primaryColumn"
    and frames: "makeFrames cd frameColumn = Some frames"
    and r: "r \<noteq> of_int \<lfloor>r\<rfloor>" "0 \<le> r" "r \<le> real (length frames) - 1"
  shows "\<exists>cd' pvs.
      frameAtIndexInterpolated cd frameColumn primaryColumn (Fin r) = Inr (Some cd') \<and>
      distinct pvs \<and>
      set pvs = {pv \<in> (\<lambda>row. row_get row primaryColumn) ` set (rows cd).
                  spec_first_match (frames ! nat \<lfloor>r\<rfloor>) primaryColumn pv \<noteq> None \<and>
                  spec_first_match (frames ! Suc (nat \<lfloor>r\<rfloor>)) primaryColumn pv \<noteq> None} \<and>
      map Some (rows cd') =
        map (spec_row_for (columns cd) primaryColumn (Fin (r - of_int \<lfloor>r\<rfloor>))
               (frames ! nat \<lfloor>r\<rfloor>) (frames ! Suc (nat \<lfloor>r\<rfloor>))) pvs"
proof -
  let ?fa = "frames ! nat \<lfloor>r\<rfloor>" and ?fb = "frames ! Suc (nat \<lfloor>r\<rfloor>)"
  let ?t = "r - of_int \<lfloor>r\<rfloor>"
  let ?F = "\<lambda>primaryValue.
           case find (\<lambda>row. row_get row primaryColumn = primaryValue) ?fa of
             None \<Rightarrow> None
           | Some rowA \<Rightarrow>
              (case find (\<lambda>row. row_get row primaryColumn = primaryValue) ?fb of
                 None \<Rightarrow> None
               | Some rowB \<Rightarrow>
                   Some (interpolateRow (columns cd) primaryColumn (Fin ?t) rowA rowB))"
  let ?allv = "toOrderedSet (map (\<lambda>ii. row_get ii primaryColumn) (rows cd))"
  let ?pvs = "filter (\<lambda>pv. ?F pv \<noteq> None) ?allv"
  let ?cd' = "new_ChartData (List.map_filter ?F ?allv) (column_defs cd)"
  let ?san = "map (\<lambda>(k, cell). (k, if isValueValid cell then cell else JNull))"
  note n = nonintegral_index [OF r]
  from reach obtain rs defs where cd: "cd = new_ChartData rs defs"
    using reachable_constructed by blast
  have wf: "distinct (map fst (columns cd))" "\<forall>(k, c) \<in> set (columns cd). key c = k"
    using createColumns_wf [of defs "createRows rs"] by (simp_all add: cd new_ChartData_def Let_def)
  have valid: "\<forall>(k, v) \<in> set row. isValueValid v" if "row \<in> set (rows cd)" for row
    using cells_valid_new [of rs defs] that by (auto simp: cd cells_valid_def list_all_iff)
  have fr: "frames = map snd (groupBy (\<lambda>ii. row_get ii frameColumn) (rows cd))"
    using frames by (simp add: makeFrames_def split: if_splits)
  have sub: "set ?fa \<subseteq> set (rows cd)" "set ?fb \<subseteq> set (rows cd)"
    using n(2,3) groupBy_member [of _ "\<lambda>ii. row_get ii frameColumn" "rows cd"]
    unfolding fr [symmetric] by (metis nth_mem)+
  have ev: "frameAtIndexInterpolated cd frameColumn primaryColumn (Fin r) = Inr (Some ?cd')"
    by (rule frameAtIndexInterpolated_eval [OF cols frames r])
  have d: "distinct ?pvs"
    using toOrderedSet_set_distinct [of "map (\<lambda>ii. row_get ii primaryColumn) (rows cd)"] by simp
  have s: "set ?pvs = {pv \<in> (\<lambda>row. row_get row primaryColumn) ` set (rows cd).
                  spec_first_match ?fa primaryColumn pv \<noteq> None \<and>
                  spec_first_match ?fb primaryColumn pv \<noteq> None}"
    using toOrderedSet_set_distinct [of "map (\<lambda>ii. row_get ii primaryColumn) (rows cd)"]
    by (auto simp: spec_first_match_def split: option.splits)
  have row: "Some (?san (the (?F pv))) =
      spec_row_for (columns cd) primaryColumn (Fin ?t) ?fa ?fb pv" if "?F pv \<noteq> None" for pv
  proof -
    from that obtain rowA rowB
      where a: "find (\<lambda>row. row_get row primaryColumn = pv) ?fa = Some rowA"
        and b: "find (\<lambda>row. row_get row primaryColumn = pv) ?fb = Some rowB"
      by (auto split: option.splits)
    have "rowA \<in> set ?fa" "rowB \<in> set ?fb"
      using a b by (auto simp: find_Some_iff)
    then have va: "\<forall>(k, v) \<in> set rowA. isValueValid v" and vb: "\<forall>(k, v) \<in> set rowB. isValueValid v"
      using sub valid by blast+
    show ?thesis
      using sanitize_interpolateRow [OF wf va vb n(6,7), of primaryColumn]
      by (simp add: a b spec_row_for_def spec_first_match_def)
  qed
  have rows: "rows ?cd' = map (?san \<circ> (the \<circ> ?F)) ?pvs"
    by (simp add: new_ChartData_def Let_def createRows_def List.map_filter_def)
  have "map Some (rows ?cd') =
      map (spec_row_for (columns cd) primaryColumn (Fin ?t) ?fa ?fb) ?pvs"
    unfolding rows using row by (simp add: comp_def)
  with ev d s show ?thesis by blast
qed

text \<open>
  The example of the method's documentation: between day 1 and day 2, at index
  \<open>0.5\<close>, the two prices are matched and \<open>day\<close> and \<open>amount\<close> are interpolated.
\<close>

theorem frameAtIndexInterpolated_rows_witness:
  "frameAtIndexInterpolated
     (new_ChartData
        [[(''day'', JNum (Fin 1)), (''price'', JNum (Fin 10)), (''amount'', JNum (Fin 2))],
         [(''day'', JNum (Fin 1)), (''price'', JNum (Fin 20)), (''amount'', JNum (Fin 40))],
         [(''day'', JNum (Fin 2)), (''price'', JNum (Fin 10)), (''amount'', JNum (Fin 4))],
         [(''day'', JNum (Fin 2)), (''price'', JNum (Fin 20)), (''amount'', JNum (Fin 30))]]
        [\<lparr>def_key = ''day'', def_label = None, def_isContinuous = None\<rparr>,
         \<lparr>def_key = ''price'', def_label = None, def_isContinuous = None\<rparr>,
         \<lparr>def_key = ''amount'', def_label = None, def_isContinuous = None\<rparr>])
     ''day'' ''price'' (Fin (1 / 2))
   = Inr (Some \<lparr>columns = [(''day'', \<lparr>key = ''day'', label = None, isContinuous = True\<rparr>),
                            (''price'', \<lparr>key = ''price'', label = None, isContinuous = True\<rparr>),
                            (''amount'', \<lparr>key = ''amount'', label = None, isContinuous = True\<rparr>)],
        rows = [[(''day'', JNum (Fin (3 / 2))), (''price'', JNum (Fin 10)), (''amount'', JNum (Fin 3))],
                [(''day'', JNum (Fin (3 / 2))), (''price'', JNum (Fin 20)), (''amount'', JNum (Fin 35))]]\<rparr>)"
  using frameAtIndexInterpolated_rows [OF construct, of
      "[[(''day'', JNum (Fin 1)), (''price'', JNum (Fin 10)), (''amount'', JNum (Fin 2))],
         [(''day'', JNum (Fin 1)), (''price'', JNum (Fin 20)), (''amount'', JNum (Fin 40))],
         [(''day'', JNum (Fin 2)), (''price'', JNum (Fin 10)), (''amount'', JNum (Fin 4))],
         [(''day'', JNum (Fin 2)), (''price'', JNum (Fin 20)), (''amount'', JNum (Fin 30))]]"
      "[\<lparr>def_key = ''day'', def_label = None, def_isContinuous = None\<rparr>,
         \<lparr>def_key = ''price'', def_label = None, def_isContinuous = None\<rparr>,
         \<lparr>def_key = ''amount'', def_label = None, def_isContinuous = None\<rparr>]"
      "''day''" "''price''"
      "[[[(''day'', JNum (Fin 1)), (''price'', JNum (Fin 10)), (''amount'', JNum (Fin 2))],
         [(''day'', JNum (Fin 1)), (''price'', JNum (Fin 20)), (''amount'', JNum (Fin 40))]],
        [[(''day'', JNum (Fin 2)), (''price'', JNum (Fin 10)), (''amount'', JNum (Fin 4))],
         [(''day'', JNum (Fin 2)), (''price'', JNum (Fin 20)), (''amount'', JNum (Fin 30))]]]"
      "1 / 2"]
  by (simp add: cd_eval frame_eval lerp_def num_add_def num_mul_def num_sub_def double_eval)

text \<open>
  The claim as the spec words it, "the frame-a row's value otherwise", fails for a
  declared column that the rows do not have: the row of frame \<open>a\<close> has no value
  for \<open>note\<close> (\<open>row.get('note')\<close> is \<open>undefined\<close>), and the interpolated row holds
  \<open>null\<close> there, put in by the constructor.
\<close>

theorem frameAtIndexInterpolated_absent_counterexample:
  "frameAtIndexInterpolated
     (new_ChartData
        [[(''day'', JNum (Fin 1)), (''p'', JStr ''x'')],
         [(''day'', JNum (Fin 2)), (''p'', JStr ''x'')]]
        [\<lparr>def_key = ''day'', def_label = None, def_isContinuous = None\<rparr>,
         \<lparr>def_key = ''p'', def_label = None, def_isContinuous = None\<rparr>,
         \<lparr>def_key = ''note'', def_label = None, def_isContinuous = None\<rparr>])
     ''day'' ''p'' (Fin (1 / 2))
   = Inr (Some \<lparr>columns = [(''day'', \<lparr>key = ''day'', label = None, isContinuous = True\<rparr>),
                            (''p'', \<lparr>key = ''p'', label = None, isContinuous = False\<rparr>),
                            (''note'', \<lparr>key = ''note'', label = None, isContinuous = False\<rparr>)],
        rows = [[(''day'', JNum (Fin (3 / 2))), (''p'', JStr ''x''), (''note'', JNull)]]\<rparr>) \<and>
   makeFrames
     (new_ChartData
        [[(''day'', JNum (Fin 1)), (''p'', JStr ''x'')],
         [(''day'', JNum (Fin 2)), (''p'', JStr ''x'')]]
        [\<lparr>def_key = ''day'', def_label = None, def_isContinuous = None\<rparr>,
         \<lparr>def_key = ''p'', def_label = None, def_isContinuous = None\<rparr>,
         \<lparr>def_key = ''note'', def_label = None, def_isContinuous = None\<rparr>]) ''day''
   = Some [[[(''day'', JNum (Fin 1)), (''p'', JStr ''x'')]],
           [[(''day'', JNum (Fin 2)), (''p'', JStr ''x'')]]] \<and>
   row_get [(''day'', JNum (Fin 1)), (''p'', JStr ''x'')] ''note'' = JUndefined \<and>
   JUndefined \<noteq> JNull"
  by (simp add: cd_eval frame_eval lerp_def num_add_def num_mul_def num_sub_def double_eval)

section \<open>Mapping the points of a series\<close>

lemma collect_map_Inr: "collect (map (\<lambda>x. Inr (f x)) xs) = Inr (map f xs)"
  by (induction xs) auto

lemma mapPoints_calls_aligned:
  assumes "\<forall>g \<in> set (groups s). length g = n" and "groups s = [] \<longrightarrow> n = 0"
  shows "mapPoints_calls s = Inr (map (\<lambda>i. (map (\<lambda>g. g ! i) (groups s), i)) [0..<n])"
proof -
  have n: "group_length s = n"
    using assms by (cases "groups s") (auto simp: group_length_def)
  have "map (\<lambda>i. case getPoint s i of Inl e \<Rightarrow> Inl e | Inr slice \<Rightarrow> Inr (slice, i)) [0..<n] =
        map (\<lambda>i. Inr (map (\<lambda>g. g ! i) (groups s), i)) [0..<n]"
    using assms(1) by (auto simp: getPoint_def list_all_iff)
  then show ?thesis
    unfolding mapPoints_calls_def n by (simp only: collect_map_Inr)
qed

text \<open>
  C8. For a series of \<open>g\<close> groups of length \<open>n\<close> each, and a function \<open>fn\<close> that
  returns \<open>g\<close> values, \<open>mapPoints(fn)\<close> calls \<open>fn\<close> once for every point index
  \<open>i\<close> from \<open>0\<close> to \<open>n - 1\<close>, in this order, with the slice of the \<open>i\<close>-th point
  of every group and with \<open>i\<close>; it returns a series of \<open>g\<close> groups of length \<open>n\<close>
  in which point \<open>i\<close> of group \<open>j\<close> is the \<open>j\<close>-th value that \<open>fn\<close> returned for
  \<open>i\<close>.
\<close>

theorem mapPoints_inversion:
  assumes "\<forall>g \<in> set (groups s). length g = n" and "groups s = [] \<longrightarrow> n = 0"
    and "\<forall>slice i. length (fn slice i) = length (groups s)"
  shows "mapPoints_calls s = Inr (map (\<lambda>i. (map (\<lambda>g. g ! i) (groups s), i)) [0..<n]) \<and>
     (\<exists>s'. mapPoints fn s = Inr s' \<and>
        length (groups s') = length (groups s) \<and>
        preprocess s' = preprocess s \<and>
        (\<forall>j < length (groups s).
           length (groups s' ! j) = n \<and>
           (\<forall>i < n. groups s' ! j ! i = fn (map (\<lambda>g. g ! i) (groups s)) i ! j)))"
proof -
  let ?slice = "\<lambda>i. map (\<lambda>g. g ! i) (groups s)"
  let ?results = "map (\<lambda>i. fn (?slice i) i) [0..<n]"
  let ?gs = "map (\<lambda>j. map (\<lambda>result. result ! j) ?results) [0..<length (groups s)]"
  have calls: "mapPoints_calls s = Inr (map (\<lambda>i. (?slice i, i)) [0..<n])"
    by (rule mapPoints_calls_aligned [OF assms(1,2)])
  have sc: "scatter (length (groups s)) ?results = Inr ?gs"
    using assms(3) by (simp add: scatter_def list_all_iff)
  have res: "mapPoints fn s = Inr \<lparr>groups = ?gs, preprocess = preprocess s, \<dots> = Series.more s\<rparr>"
    using sc by (simp add: mapPoints_def calls comp_def)
  show ?thesis
    unfolding res using calls by simp
qed

text \<open>The case of the test "can map points" of Series-test.js.\<close>

theorem mapPoints_inversion_witness:
  "mapPoints_calls \<lparr>groups = [[1, 2, 3], [4, 5, 6 :: nat]],
      preprocess = \<lparr>pp_stacked = None, pp_stackType = None, pp_normalizeToPercentage = None\<rparr>\<rparr>
     = Inr [([1, 4], 0), ([2, 5], 1), ([3, 6], 2)] \<and>
   mapPoints (\<lambda>slice i. [''foo'', ''bar''])
     \<lparr>groups = [[1, 2, 3], [4, 5, 6 :: nat]],
      preprocess = \<lparr>pp_stacked = None, pp_stackType = None, pp_normalizeToPercentage = None\<rparr>\<rparr>
     = Inr \<lparr>groups = [[''foo'', ''foo'', ''foo''], [''bar'', ''bar'', ''bar'']],
           preprocess = \<lparr>pp_stacked = None, pp_stackType = None, pp_normalizeToPercentage = None\<rparr>\<rparr>"
  using mapPoints_inversion [of
     "\<lparr>groups = [[1, 2, 3], [4, 5, 6 :: nat]],
      preprocess = \<lparr>pp_stacked = None, pp_stackType = None, pp_normalizeToPercentage = None\<rparr>\<rparr>"
     3 "\<lambda>slice i. [''foo'', ''bar'']"]
  by (simp add: mapPoints_def mapPoints_calls_def getPoint_def group_length_def scatter_def
      upt_rec)

section \<open>What a transformation changes\<close>

lemma store_get_append: "a < length st \<Longrightarrow> store_get (st @ xs) a = store_get st a"
  by (simp add: store_get_def nth_append)

lemma store_get_take: "a < n \<Longrightarrow> n \<le> length st \<Longrightarrow> store_get (take n st) a = store_get st a"
  by (simp add: store_get_def)

lemma store_get_prefix:
  assumes "take n st' = take n st" and "a < n" and "n \<le> length st" and "n \<le> length st'"
  shows "store_get st' a = store_get st a"
  using store_get_take [OF assms(2,3)] store_get_take [OF assms(2,4)] assms(1) by simp

lemma set_prop_frame:
  "n \<le> a \<Longrightarrow> take n (set_prop st a f v) = take n st"
  "length (set_prop st a f v) = length st"
  by (auto simp: set_prop_def split: option.splits stored.splits)

lemma set_prop_point:
  "store_get st a = Some (Point_obj p) \<Longrightarrow>
   store_get (set_prop st a f v) a = Some (Point_obj (AList.update f v p))"
  by (auto simp: set_prop_def store_get_def split: if_splits)

lemma nextPoints_frame:
  "nextPoints h k total' st sumv as = (st', r) \<Longrightarrow> n \<le> length st \<Longrightarrow>
   n \<le> length st' \<and> take n st' = take n st"
proof (induction as arbitrary: st sumv st' r)
  case Nil
  then show ?case by simp
next
  case (Cons a as)
  show ?case
  proof (cases "get_point st a")
    case (Inl e)
    then show ?thesis using Cons.prems by simp
  next
    case (Inr p)
    define st1 where "st1 = st @ [Point_obj p]"
    define nx where "nx = length st"
    define st2 where "st2 = set_prop st1 nx ''originalValue'' (get_prop st1 nx k)"
    define st3 where "st3 = set_prop st2 nx ''percentValue''
                       (js_div h (js_or (get_prop st2 nx k) (JNum (Fin 0))) total')"
    define sum1 where "sum1 = js_add h sumv (js_or (get_prop st3 nx k) (JNum (Fin 0)))"
    define st4 where "st4 = set_prop st3 nx k (js_div h sum1 total')"
    obtain st5 r5 where rec: "nextPoints h k total' st4 sum1 as = (st5, r5)"
      by (cases "nextPoints h k total' st4 sum1 as")
    have st': "st' = st5"
      using Cons.prems(1) Inr rec
      by (simp add: alloc_def Let_def st1_def [symmetric] nx_def [symmetric] st2_def [symmetric]
          st3_def [symmetric] sum1_def [symmetric] st4_def [symmetric] split: sum.splits)
    have n: "n \<le> nx" using Cons.prems(2) by (simp add: nx_def)
    have len4: "length st4 = length st + 1"
      by (simp add: st4_def st3_def st2_def st1_def set_prop_frame)
    have t4: "take n st4 = take n st"
      using n Cons.prems(2)
      by (simp add: st4_def st3_def st2_def st1_def set_prop_frame)
    have "n \<le> length st4" using Cons.prems(2) len4 by simp
    from Cons.IH [OF rec this] show ?thesis using t4 st' by simp
  qed
qed

lemma nextPoints_result:
  "nextPoints h k total' st sumv as = (st', Inr nexts) \<Longrightarrow>
   length nexts = length as \<and>
   (\<forall>a \<in> set nexts. length st \<le> a \<and> (\<exists>q. store_get st' a = Some (Point_obj q)))"
proof (induction as arbitrary: st sumv st' nexts)
  case Nil
  then show ?case by simp
next
  case (Cons a as)
  show ?case
  proof (cases "get_point st a")
    case (Inl e)
    then show ?thesis using Cons.prems by simp
  next
    case (Inr p)
    define st1 where "st1 = st @ [Point_obj p]"
    define nx where "nx = length st"
    define st2 where "st2 = set_prop st1 nx ''originalValue'' (get_prop st1 nx k)"
    define st3 where "st3 = set_prop st2 nx ''percentValue''
                       (js_div h (js_or (get_prop st2 nx k) (JNum (Fin 0))) total')"
    define sum1 where "sum1 = js_add h sumv (js_or (get_prop st3 nx k) (JNum (Fin 0)))"
    define st4 where "st4 = set_prop st3 nx k (js_div h sum1 total')"
    obtain st5 r5 where rec: "nextPoints h k total' st4 sum1 as = (st5, r5)"
      by (cases "nextPoints h k total' st4 sum1 as")
    have unfold: "nextPoints h k total' st sumv (a # as) =
        (case r5 of Inl e \<Rightarrow> (st5, Inl e) | Inr ns \<Rightarrow> (st5, Inr (nx # ns)))"
      using Inr rec
      by (simp add: alloc_def Let_def st1_def [symmetric] nx_def [symmetric] st2_def [symmetric]
          st3_def [symmetric] sum1_def [symmetric] st4_def [symmetric])
    from Cons.prems unfold obtain ns where r5: "r5 = Inr ns" and nexts: "nexts = nx # ns"
      and st': "st' = st5"
      by (cases r5) auto
    have len4: "length st4 = length st + 1"
      by (simp add: st4_def st3_def st2_def st1_def set_prop_frame)
    have p1: "store_get st1 nx = Some (Point_obj p)"
      by (simp add: st1_def nx_def store_get_def)
    have "\<exists>q. store_get st4 nx = Some (Point_obj q)"
      unfolding st4_def st3_def st2_def
      using p1 by (blast intro: set_prop_point)
    then obtain q where q: "store_get st4 nx = Some (Point_obj q)" by blast
    have ih: "length ns = length as \<and>
        (\<forall>a \<in> set ns. length st4 \<le> a \<and> (\<exists>q. store_get st5 a = Some (Point_obj q)))"
      using Cons.IH [OF rec [unfolded r5]] .
    have fr: "length st4 \<le> length st5 \<and> take (length st4) st5 = take (length st4) st4"
      using nextPoints_frame [OF rec, of "length st4"] by simp
    have "store_get st5 nx = store_get st4 nx"
      using fr len4 by (intro store_get_prefix [where n = "length st4"]) (simp_all add: nx_def)
    then have head: "\<exists>q. store_get st' nx = Some (Point_obj q)" using q st' by simp
    show ?thesis
      unfolding nexts st' using ih head len4 st' by (auto simp: nx_def)
  qed
qed

lemma slice_total_succeeds:
  "\<forall>a \<in> set as. \<exists>q. store_get st a = Some (Point_obj q) \<Longrightarrow>
   \<exists>t. slice_total h k st rr as = Inr t"
  by (induction as arbitrary: rr) (auto simp: get_point_def)

lemma nextPoints_succeeds:
  "\<forall>a \<in> set as. \<exists>q. store_get st a = Some (Point_obj q) \<Longrightarrow>
   \<exists>st' nexts. nextPoints h k total' st sumv as = (st', Inr nexts)"
proof (induction as arbitrary: st sumv)
  case Nil
  then show ?case by simp
next
  case (Cons a as)
  from Cons.prems obtain p where p: "get_point st a = Inr p"
    by (auto simp: get_point_def)
  define st1 where "st1 = st @ [Point_obj p]"
  define nx where "nx = length st"
  define st2 where "st2 = set_prop st1 nx ''originalValue'' (get_prop st1 nx k)"
  define st3 where "st3 = set_prop st2 nx ''percentValue''
                     (js_div h (js_or (get_prop st2 nx k) (JNum (Fin 0))) total')"
  define sum1 where "sum1 = js_add h sumv (js_or (get_prop st3 nx k) (JNum (Fin 0)))"
  define st4 where "st4 = set_prop st3 nx k (js_div h sum1 total')"
  have len4: "length st4 = length st + 1"
    by (simp add: st4_def st3_def st2_def st1_def set_prop_frame)
  have t4: "take (length st) st4 = take (length st) st"
    by (simp add: st4_def st3_def st2_def st1_def set_prop_frame nx_def)
  have "\<forall>a \<in> set as. \<exists>q. store_get st4 a = Some (Point_obj q)"
  proof
    fix b assume b: "b \<in> set as"
    then obtain q where q: "store_get st b = Some (Point_obj q)" using Cons.prems by auto
    then have "b < length st" by (auto simp: store_get_def split: if_splits)
    then have "store_get st4 b = store_get st b"
      using t4 len4 by (intro store_get_prefix [where n = "length st"]) simp_all
    then show "\<exists>q. store_get st4 b = Some (Point_obj q)" using q by simp
  qed
  from Cons.IH [OF this] obtain st5 ns where
    "nextPoints h k total' st4 sum1 as = (st5, Inr ns)" by blast
  then show ?case
    using p
    by (simp add: alloc_def Let_def st1_def [symmetric] nx_def [symmetric] st2_def [symmetric]
        st3_def [symmetric] sum1_def [symmetric] st4_def [symmetric])
qed

lemma normalize_slice_frame:
  "normalize_slice h k st slice i = (st', r) \<Longrightarrow> n \<le> length st \<Longrightarrow>
   n \<le> length st' \<and> take n st' = take n st"
  unfolding normalize_slice_def
  by (auto split: sum.splits dest: nextPoints_frame)

lemma normalize_slice_result:
  "normalize_slice h k st slice i = (st', Inr nexts) \<Longrightarrow>
   length nexts = length slice \<and>
   (\<forall>a \<in> set nexts. length st \<le> a \<and> (\<exists>q. store_get st' a = Some (Point_obj q)))"
  unfolding normalize_slice_def
  by (auto split: sum.splits dest: nextPoints_result)

lemma normalize_slice_succeeds:
  assumes "\<forall>a \<in> set slice. \<exists>q. store_get st a = Some (Point_obj q)"
  shows "\<exists>st' nexts. normalize_slice h k st slice i = (st', Inr nexts)"
proof -
  from slice_total_succeeds [OF assms] obtain t
    where "slice_total h k st (JNum (Fin 0)) slice = Inr t" by blast
  then show ?thesis
    unfolding normalize_slice_def using nextPoints_succeeds [OF assms] by simp
qed

text \<open>
  A callback that leaves the objects that are there as they are gives a \<open>mapPoints\<close>
  that does: it returns a new series object and changes no object of the store.
\<close>

lemma run_calls_frame:
  assumes fn: "\<And>st slice i st' r n. fn st slice i = (st', r) \<Longrightarrow> n \<le> length st \<Longrightarrow>
             n \<le> length st' \<and> take n st' = take n st"
  shows "run_calls fn st calls = (st', r) \<Longrightarrow> n \<le> length st \<Longrightarrow>
     n \<le> length st' \<and> take n st' = take n st"
proof (induction calls arbitrary: st st' r)
  case Nil
  then show ?case by simp
next
  case (Cons c calls)
  obtain slice i where c: "c = (slice, i)" by (cases c)
  obtain st1 r1 where f: "fn st slice i = (st1, r1)" by (cases "fn st slice i")
  have f1: "n \<le> length st1 \<and> take n st1 = take n st" by (rule fn [OF f Cons.prems(2)])
  show ?case
  proof (cases r1)
    case (Inl e)
    then show ?thesis using Cons.prems(1) c f f1 by simp
  next
    case (Inr result)
    obtain st2 r2 where rc: "run_calls fn st1 calls = (st2, r2)"
      by (cases "run_calls fn st1 calls")
    have "n \<le> length st2 \<and> take n st2 = take n st1"
      using Cons.IH [OF rc] f1 by simp
    moreover have "st' = st2"
      using Cons.prems(1) c f Inr rc by (auto split: sum.splits)
    ultimately show ?thesis using f1 by simp
  qed
qed

lemma store_mapPoints_frame:
  assumes fn: "\<And>st slice i st' r n. fn st slice i = (st', r) \<Longrightarrow> n \<le> length st \<Longrightarrow>
             n \<le> length st' \<and> take n st' = take n st"
    and "store_mapPoints fn st this = (st', r)"
  shows "length st \<le> length st' \<and> take (length st) st' = st \<and>
     (\<forall>a. r = Inr a \<longrightarrow> length st \<le> a \<and> Suc a = length st')"
proof -
  have rc: "length st \<le> length st1 \<and> take (length st) st1 = st"
    if "run_calls fn st calls = (st1, r1)" for calls st1 r1
    using run_calls_frame [of fn st calls st1 r1 "length st"] fn that by simp
  show ?thesis
    using assms(2) unfolding store_mapPoints_def
    by (auto simp: alloc_def split: option.splits stored.splits sum.splits prod.splits dest!: rc)
qed

lemma run_calls_normalize_result:
  "run_calls (normalize_slice h k) st calls = (st', Inr results) \<Longrightarrow>
   length results = length calls \<and>
   (\<forall>i < length calls. length (results ! i) = length (fst (calls ! i))) \<and>
   (\<forall>result \<in> set results. \<forall>a \<in> set result.
      length st \<le> a \<and> (\<exists>q. store_get st' a = Some (Point_obj q)))"
proof (induction calls arbitrary: st st' results)
  case Nil
  then show ?case by simp
next
  case (Cons c calls)
  obtain slice i where c: "c = (slice, i)" by (cases c)
  obtain st1 r1 where f: "normalize_slice h k st slice i = (st1, r1)"
    by (cases "normalize_slice h k st slice i")
  obtain st2 r2 where rc: "run_calls (normalize_slice h k) st1 calls = (st2, r2)"
    by (cases "run_calls (normalize_slice h k) st1 calls")
  from Cons.prems c f rc obtain result rest where r1: "r1 = Inr result" and r2: "r2 = Inr rest"
    and results: "results = result # rest" and st': "st' = st2"
    by (cases r1; cases r2) auto
  have res: "length result = length slice \<and>
      (\<forall>a \<in> set result. length st \<le> a \<and> (\<exists>q. store_get st1 a = Some (Point_obj q)))"
    using normalize_slice_result [OF f [unfolded r1]] .
  have fr1: "length st \<le> length st1"
    using normalize_slice_frame [OF f, of "length st"] by simp
  have fr2: "length st1 \<le> length st2 \<and> take (length st1) st2 = take (length st1) st1"
    using run_calls_frame [of "normalize_slice h k" st1 calls st2 r2 "length st1"]
      normalize_slice_frame rc by blast
  have ih: "length rest = length calls \<and>
      (\<forall>i < length calls. length (rest ! i) = length (fst (calls ! i))) \<and>
      (\<forall>result \<in> set rest. \<forall>a \<in> set result.
         length st1 \<le> a \<and> (\<exists>q. store_get st2 a = Some (Point_obj q)))"
    using Cons.IH [OF rc [unfolded r2]] .
  have head: "length st \<le> a \<and> (\<exists>q. store_get st2 a = Some (Point_obj q))"
    if a: "a \<in> set result" for a
  proof -
    from res a obtain q where la: "length st \<le> a" and q: "store_get st1 a = Some (Point_obj q)"
      by blast
    have "a < length st1" using q by (auto simp: store_get_def split: if_splits)
    then have "store_get st2 a = store_get st1 a"
      using fr2 by (intro store_get_prefix [where n = "length st1"]) simp_all
    then show ?thesis using la q by simp
  qed
  have lens: "\<forall>j < length (c # calls). length ((result # rest) ! j) = length (fst ((c # calls) ! j))"
  proof (intro allI impI)
    fix j assume "j < length (c # calls)"
    then show "length ((result # rest) ! j) = length (fst ((c # calls) ! j))"
      using res ih c by (cases j) auto
  qed
  have tails: "\<forall>result \<in> set rest. \<forall>a \<in> set result.
         length st \<le> a \<and> (\<exists>q. store_get st2 a = Some (Point_obj q))"
    using ih fr1 by (meson order_trans)
  show ?case
    unfolding results st' using ih lens head tails by simp
qed

lemma run_calls_normalize_succeeds:
  "\<forall>c \<in> set calls. \<forall>a \<in> set (fst c). \<exists>q. store_get st a = Some (Point_obj q) \<Longrightarrow>
   \<exists>st' results. run_calls (normalize_slice h k) st calls = (st', Inr results)"
proof (induction calls arbitrary: st)
  case Nil
  then show ?case by simp
next
  case (Cons c calls)
  obtain slice i where c: "c = (slice, i)" by (cases c)
  have "\<forall>a \<in> set slice. \<exists>q. store_get st a = Some (Point_obj q)"
    using Cons.prems c by simp
  from normalize_slice_succeeds [OF this] obtain st1 result
    where f: "normalize_slice h k st slice i = (st1, Inr result)" by blast
  have fr: "length st \<le> length st1 \<and> take (length st) st1 = take (length st) st"
    using normalize_slice_frame [OF f, of "length st"] by simp
  have "\<forall>c \<in> set calls. \<forall>a \<in> set (fst c). \<exists>q. store_get st1 a = Some (Point_obj q)"
  proof (intro ballI)
    fix c' a assume c': "c' \<in> set calls" and a: "a \<in> set (fst c')"
    have "c' \<in> set (c # calls)" using c' by simp
    with Cons.prems a obtain q where q: "store_get st a = Some (Point_obj q)" by blast
    then have "a < length st" by (auto simp: store_get_def split: if_splits)
    then have "store_get st1 a = store_get st a"
      using fr by (intro store_get_prefix [where n = "length st"]) simp_all
    then show "\<exists>q. store_get st1 a = Some (Point_obj q)" using q by simp
  qed
  from Cons.IH [OF this] obtain st2 rest
    where "run_calls (normalize_slice h k) st1 calls = (st2, Inr rest)" by blast
  then show ?case using c f by simp
qed

lemma collect_Inr: "collect xs = Inr ys \<Longrightarrow> xs = map Inr ys"
  by (induction xs arbitrary: ys) (auto split: sum.splits)

lemma mapPoints_calls_Inr:
  assumes "mapPoints_calls s = Inr calls"
  shows "length calls = group_length s"
    and "\<forall>c \<in> set calls. length (fst c) = length (groups s) \<and>
           set (fst c) \<subseteq> \<Union> (set ` set (groups s))"
proof -
  let ?F = "\<lambda>i. case getPoint s i of Inl e \<Rightarrow> Inl e | Inr slice \<Rightarrow> Inr (slice, i)"
  have m: "map ?F [0..<group_length s] = map Inr calls"
    using collect_Inr [OF assms [unfolded mapPoints_calls_def]] .
  then have "length (map ?F [0..<group_length s]) = length (map Inr calls)" by simp
  then show len: "length calls = group_length s" by simp
  show "\<forall>c \<in> set calls. length (fst c) = length (groups s) \<and>
           set (fst c) \<subseteq> \<Union> (set ` set (groups s))"
  proof
    fix c assume "c \<in> set calls"
    then obtain i where i: "i < length calls" and c: "c = calls ! i"
      by (auto simp: in_set_conv_nth)
    have e1: "map ?F [0..<group_length s] ! i = ?F ([0..<group_length s] ! i)"
      by (rule nth_map) (use i len in simp)
    have e2: "[0..<group_length s] ! i = i" using i len by simp
    have "?F i = ?F ([0..<group_length s] ! i)" unfolding e2 ..
    also have "\<dots> = map ?F [0..<group_length s] ! i" using e1 by simp
    also have "\<dots> = map Inr calls ! i" unfolding m ..
    also have "\<dots> = Inr c" using i c by simp
    finally have F: "?F i = Inr c" .
    then obtain slice where g: "getPoint s i = Inr slice" and cs: "c = (slice, i)"
      by (auto split: sum.splits)
    have all: "list_all (\<lambda>grp. i < length grp) (groups s)"
      and sl: "slice = map (\<lambda>grp. grp ! i) (groups s)"
      using g by (auto simp: getPoint_def split: if_splits)
    have "set slice \<subseteq> \<Union> (set ` set (groups s))"
      using all unfolding sl by (auto simp: list_all_iff)
    then show "length (fst c) = length (groups s) \<and> set (fst c) \<subseteq> \<Union> (set ` set (groups s))"
      using sl cs by simp
  qed
qed

lemma scatter_Inr:
  assumes "scatter g results = Inr gs'"
  shows "gs' = map (\<lambda>j. map (\<lambda>result. result ! j) results) [0..<g]"
    and "\<forall>result \<in> set results. g \<le> length result"
  using assms by (auto simp: scatter_def list_all_iff split: if_splits)

lemma assign_preprocess_eq:
  "store_get st series = Some (Series_obj gs pp) \<Longrightarrow> store_get st pp = Some (Preprocess_obj p) \<Longrightarrow>
   assign_preprocess st series upd = Inr (st[pp := Preprocess_obj (upd p)])"
  by (simp add: assign_preprocess_def)

lemma store_get_update:
  "store_get (st[b := x]) a = (if a = b \<and> b < length st then Some x else store_get st a)"
  by (auto simp: store_get_def)

text \<open>
  The three assignments of the step change the metadata object of the series, and
  nothing else.
\<close>

lemma normalizeToPercentage_assignments:
  assumes s: "store_get st series = Some (Series_obj gs pp)"
    and p: "store_get st pp = Some (Preprocess_obj p)"
  shows "normalizeToPercentage h k st series =
     store_mapPoints (normalize_slice h k)
       (st[pp := Preprocess_obj (p\<lparr>pp_normalizeToPercentage := Some True, pp_stacked := Some True,
                                   pp_stackType := Some ''points''\<rparr>)]) series"
proof -
  have ne: "series \<noteq> pp" using s p by auto
  have lt: "pp < length st" using p by (auto simp: store_get_def split: if_splits)
  have s': "store_get (st[pp := x]) series = Some (Series_obj gs pp)" for x
    using s ne by (simp add: store_get_update)
  have p': "store_get (st[pp := x]) pp = Some x" for x
    using lt by (simp add: store_get_update)
  have a1: "assign_preprocess st series (\<lambda>p. p\<lparr>pp_normalizeToPercentage := Some True\<rparr>) =
      Inr (st[pp := Preprocess_obj (p\<lparr>pp_normalizeToPercentage := Some True\<rparr>)])"
    by (rule assign_preprocess_eq [OF s p])
  have a2: "assign_preprocess (st[pp := Preprocess_obj (p\<lparr>pp_normalizeToPercentage := Some True\<rparr>)])
        series (\<lambda>p. p\<lparr>pp_stacked := Some True\<rparr>) =
      Inr (st[pp := Preprocess_obj (p\<lparr>pp_normalizeToPercentage := Some True,
                                       pp_stacked := Some True\<rparr>)])"
    using assign_preprocess_eq [OF s' p'] by simp
  have a3: "assign_preprocess
        (st[pp := Preprocess_obj (p\<lparr>pp_normalizeToPercentage := Some True, pp_stacked := Some True\<rparr>)])
        series (\<lambda>p. p\<lparr>pp_stackType := Some ''points''\<rparr>) =
      Inr (st[pp := Preprocess_obj (p\<lparr>pp_normalizeToPercentage := Some True,
                                       pp_stacked := Some True, pp_stackType := Some ''points''\<rparr>)])"
    using assign_preprocess_eq [OF s' p'] by simp
  show ?thesis
    unfolding normalizeToPercentage_def a1 sum.case a2 a3 ..
qed

text \<open>What \<open>mapPoints\<close> with the callback of the step returns.\<close>

lemma store_mapPoints_normalize_result:
  assumes s: "store_get st series = Some (Series_obj gs pp)"
    and r: "store_mapPoints (normalize_slice h k) st series = (st', Inr a)"
  shows "store_get st a = None \<and>
     (\<exists>gs'. store_get st' a = Some (Series_obj gs' pp) \<and> length gs' = length gs \<and>
        (\<forall>g' \<in> set gs'. length g' = (case gs of [] \<Rightarrow> 0 | g # _ \<Rightarrow> length g) \<and>
           (\<forall>b \<in> set g'. store_get st b = None \<and> (\<exists>q. store_get st' b = Some (Point_obj q)))))"
proof -
  from r s obtain p calls st1 results gs'
    where p: "store_get st pp = Some (Preprocess_obj p)"
      and calls: "mapPoints_calls \<lparr>groups = gs, preprocess = p\<rparr> = Inr calls"
      and run: "run_calls (normalize_slice h k) st calls = (st1, Inr results)"
      and sc: "scatter (length gs) results = Inr gs'"
      and st': "st' = st1 @ [Series_obj gs' pp]" and a: "a = length st1"
    unfolding store_mapPoints_def
    by (auto simp: alloc_def split: option.splits stored.splits sum.splits prod.splits)
  have fr: "length st \<le> length st1"
    using run_calls_frame [of "normalize_slice h k" st calls st1 "Inr results" "length st"]
      normalize_slice_frame run by blast
  have res: "length results = length calls"
    "\<forall>result \<in> set results. \<forall>b \<in> set result.
        length st \<le> b \<and> (\<exists>q. store_get st1 b = Some (Point_obj q))"
    using run_calls_normalize_result [OF run] by simp_all
  have lc: "length calls = (case gs of [] \<Rightarrow> 0 | g # _ \<Rightarrow> length g)"
    using mapPoints_calls_Inr(1) [OF calls] by (simp add: group_length_def)
  have gs': "gs' = map (\<lambda>j. map (\<lambda>result. result ! j) results) [0..<length gs]"
    and wide: "\<forall>result \<in> set results. length gs \<le> length result"
    using scatter_Inr [OF sc] by simp_all
  have new: "store_get st a = None" using fr a by (simp add: store_get_def)
  have at: "store_get st' a = Some (Series_obj gs' pp)"
    by (simp add: st' a store_get_def)
  have each: "length g' = (case gs of [] \<Rightarrow> 0 | g # _ \<Rightarrow> length g) \<and>
           (\<forall>b \<in> set g'. store_get st b = None \<and> (\<exists>q. store_get st' b = Some (Point_obj q)))"
    if "g' \<in> set gs'" for g'
  proof -
    from that obtain j where j: "j < length gs" and g': "g' = map (\<lambda>result. result ! j) results"
      unfolding gs' by auto
    have "store_get st b = None \<and> (\<exists>q. store_get st' b = Some (Point_obj q))"
      if "b \<in> set g'" for b
    proof -
      from that obtain result where rs: "result \<in> set results" and b: "b = result ! j"
        unfolding g' by auto
      have "j < length result" using wide rs j by force
      then have "b \<in> set result" unfolding b by (rule nth_mem)
      with res(2) rs obtain q where lb: "length st \<le> b" and q: "store_get st1 b = Some (Point_obj q)"
        by blast
      have "b < length st1" using q by (auto simp: store_get_def split: if_splits)
      then have "store_get st' b = store_get st1 b" unfolding st' by (rule store_get_append)
      then show ?thesis using lb q by (simp add: store_get_def)
    qed
    then show ?thesis using g' res(1) lc by simp
  qed
  show ?thesis using new at gs' each by auto
qed

lemma store_mapPoints_normalize_succeeds:
  assumes s: "store_get st series = Some (Series_obj gs pp)"
    and p: "store_get st pp = Some (Preprocess_obj p)"
    and wf: "\<forall>g \<in> set gs. length g = n \<and> (\<forall>b \<in> set g. \<exists>q. store_get st b = Some (Point_obj q))"
  shows "\<exists>st' a. store_mapPoints (normalize_slice h k) st series = (st', Inr a)"
proof -
  let ?s = "\<lparr>groups = gs, preprocess = p\<rparr>"
  define m where "m = (case gs of [] \<Rightarrow> 0 | g # _ \<Rightarrow> length g)"
  have "\<forall>g \<in> set (groups ?s). length g = m"
    using wf unfolding m_def by (cases gs) auto
  moreover have "groups ?s = [] \<longrightarrow> m = 0" by (simp add: m_def)
  ultimately have "mapPoints_calls ?s =
      Inr (map (\<lambda>i. (map (\<lambda>g. g ! i) (groups ?s), i)) [0..<m])"
    by (rule mapPoints_calls_aligned)
  then obtain calls where calls: "mapPoints_calls ?s = Inr calls" by blast
  have pts: "\<forall>c \<in> set calls. \<forall>b \<in> set (fst c). \<exists>q. store_get st b = Some (Point_obj q)"
    using mapPoints_calls_Inr(2) [OF calls] wf by fastforce
  from run_calls_normalize_succeeds [OF pts] obtain st1 results
    where run: "run_calls (normalize_slice h k) st calls = (st1, Inr results)" by blast
  have res: "length results = length calls"
    "\<forall>i < length calls. length (results ! i) = length (fst (calls ! i))"
    using run_calls_normalize_result [OF run] by simp_all
  have "\<forall>result \<in> set results. length gs \<le> length result"
  proof
    fix result assume "result \<in> set results"
    then obtain i where i: "i < length results" and r: "result = results ! i"
      by (auto simp: in_set_conv_nth)
    have "calls ! i \<in> set calls" using i res(1) by simp
    then have "length (fst (calls ! i)) = length gs"
      using mapPoints_calls_Inr(2) [OF calls] by simp
    then show "length gs \<le> length result" using res(2) i r res(1) by simp
  qed
  then obtain gs' where "scatter (length gs) results = Inr gs'"
    by (simp add: scatter_def list_all_iff)
  then show ?thesis
    using s p calls run by (simp add: store_mapPoints_def alloc_def)
qed

text \<open>
  C9, as the code has it. \<open>updateRows\<close> and \<open>mapRows\<close> leave every object of the
  store as it is, the chart data instance they are called on among them, and return a
  new instance. \<open>normalizeToPercentage\<close> applied to a series changes one object, the
  metadata object \<open>preprocess\<close> of that series, in which it sets
  \<open>normalizeToPercentage\<close> and \<open>stacked\<close> to \<open>true\<close> and \<open>stackType\<close> to \<open>points\<close>;
  the series object, its groups and every point stay as they are, also when the call
  throws. What it returns is a new series object with as many groups, of the same
  length, made of new points, which refers to the same metadata object. It does return
  a series when all groups of the given series have one length and hold points.
\<close>

theorem transformations_and_their_input:
  "(store_get st this = Some (ChartData_obj cd memos) \<longrightarrow>
      (\<exists>st1 a. store_updateRows updater st this = (st1, Inr a) \<and>
         (\<forall>b < length st. store_get st1 b = store_get st b) \<and>
         store_get st a = None \<and>
         store_get st1 a = Some (ChartData_obj (updateRows updater cd) [])) \<and>
      (\<exists>st1 a. store_mapRows mapper st this = (st1, Inr a) \<and>
         (\<forall>b < length st. store_get st1 b = store_get st b) \<and>
         store_get st a = None \<and>
         store_get st1 a = Some (ChartData_obj (mapRows mapper cd) []))) \<and>
   (store_get st series = Some (Series_obj gs pp) \<and> store_get st pp = Some (Preprocess_obj p) \<and>
    normalizeToPercentage h k st series = (st', r) \<longrightarrow>
      (\<forall>b < length st. b \<noteq> pp \<longrightarrow> store_get st' b = store_get st b) \<and>
      store_get st' pp =
        Some (Preprocess_obj (p\<lparr>pp_normalizeToPercentage := Some True, pp_stacked := Some True,
                                  pp_stackType := Some ''points''\<rparr>)) \<and>
      (\<forall>a. r = Inr a \<longrightarrow>
         store_get st a = None \<and>
         (\<exists>gs'. store_get st' a = Some (Series_obj gs' pp) \<and> length gs' = length gs \<and>
            (\<forall>g' \<in> set gs'. length g' = (case gs of [] \<Rightarrow> 0 | g # _ \<Rightarrow> length g) \<and>
               (\<forall>b \<in> set g'. store_get st b = None \<and>
                  (\<exists>q. store_get st' b = Some (Point_obj q)))))) \<and>
      ((\<forall>g \<in> set gs. length g = n \<and> (\<forall>b \<in> set g. \<exists>q. store_get st b = Some (Point_obj q))) \<longrightarrow>
         (\<exists>a. r = Inr a)))"
proof -
  have rows: "(\<exists>st1 a. store_updateRows updater st this = (st1, Inr a) \<and>
         (\<forall>b < length st. store_get st1 b = store_get st b) \<and>
         store_get st a = None \<and>
         store_get st1 a = Some (ChartData_obj (updateRows updater cd) [])) \<and>
      (\<exists>st1 a. store_mapRows mapper st this = (st1, Inr a) \<and>
         (\<forall>b < length st. store_get st1 b = store_get st b) \<and>
         store_get st a = None \<and>
         store_get st1 a = Some (ChartData_obj (mapRows mapper cd) []))"
    if "store_get st this = Some (ChartData_obj cd memos)"
    using that
    by (simp add: store_updateRows_def store_mapRows_def alloc_def store_get_append)
      (simp add: store_get_def)
  have step: "(\<forall>b < length st. b \<noteq> pp \<longrightarrow> store_get st' b = store_get st b) \<and>
      store_get st' pp =
        Some (Preprocess_obj (p\<lparr>pp_normalizeToPercentage := Some True, pp_stacked := Some True,
                                  pp_stackType := Some ''points''\<rparr>)) \<and>
      (\<forall>a. r = Inr a \<longrightarrow>
         store_get st a = None \<and>
         (\<exists>gs'. store_get st' a = Some (Series_obj gs' pp) \<and> length gs' = length gs \<and>
            (\<forall>g' \<in> set gs'. length g' = (case gs of [] \<Rightarrow> 0 | g # _ \<Rightarrow> length g) \<and>
               (\<forall>b \<in> set g'. store_get st b = None \<and>
                  (\<exists>q. store_get st' b = Some (Point_obj q)))))) \<and>
      ((\<forall>g \<in> set gs. length g = n \<and> (\<forall>b \<in> set g. \<exists>q. store_get st b = Some (Point_obj q))) \<longrightarrow>
         (\<exists>a. r = Inr a))"
    if s: "store_get st series = Some (Series_obj gs pp)"
      and p: "store_get st pp = Some (Preprocess_obj p)"
      and run: "normalizeToPercentage h k st series = (st', r)"
  proof -
    let ?P = "Preprocess_obj (p\<lparr>pp_normalizeToPercentage := Some True, pp_stacked := Some True,
                                  pp_stackType := Some ''points''\<rparr>)"
    let ?st3 = "st[pp := ?P]"
    have ne: "series \<noteq> pp" using s p by auto
    have lt: "pp < length st" using p by (auto simp: store_get_def split: if_splits)
    have m: "store_mapPoints (normalize_slice h k) ?st3 series = (st', r)"
      using run unfolding normalizeToPercentage_assignments [OF s p] .
    have s3: "store_get ?st3 series = Some (Series_obj gs pp)"
      using s ne by (simp add: store_get_update)
    have p3: "store_get ?st3 pp = Some ?P"
      using lt by (simp add: store_get_update)
    have old: "store_get ?st3 b = (if b = pp then Some ?P else store_get st b)" for b
      using lt by (simp add: store_get_update)
    have none: "store_get ?st3 b = None \<longleftrightarrow> store_get st b = None" for b
      using lt by (auto simp: store_get_def)
    have fr: "length ?st3 \<le> length st' \<and> take (length ?st3) st' = ?st3"
      using store_mapPoints_frame [OF _ m] normalize_slice_frame by blast
    have keep: "store_get st' b = store_get ?st3 b" if "b < length st" for b
      using fr that by (intro store_get_prefix [where n = "length ?st3"]) simp_all
    have c1: "\<forall>b < length st. b \<noteq> pp \<longrightarrow> store_get st' b = store_get st b"
      using keep old by simp
    have c2: "store_get st' pp = Some ?P"
      using keep [OF lt] p3 by simp
    have c3: "store_get st a = None \<and>
         (\<exists>gs'. store_get st' a = Some (Series_obj gs' pp) \<and> length gs' = length gs \<and>
            (\<forall>g' \<in> set gs'. length g' = (case gs of [] \<Rightarrow> 0 | g # _ \<Rightarrow> length g) \<and>
               (\<forall>b \<in> set g'. store_get st b = None \<and>
                  (\<exists>q. store_get st' b = Some (Point_obj q)))))"
      if "r = Inr a" for a
      using store_mapPoints_normalize_result [OF s3 m [unfolded that]] unfolding none .
    have c4: "\<exists>a. r = Inr a"
      if wf: "\<forall>g \<in> set gs. length g = n \<and> (\<forall>b \<in> set g. \<exists>q. store_get st b = Some (Point_obj q))"
    proof -
      have "\<forall>g \<in> set gs. length g = n \<and>
          (\<forall>b \<in> set g. \<exists>q. store_get ?st3 b = Some (Point_obj q))"
      proof (intro ballI conjI)
        fix g assume g: "g \<in> set gs"
        then show "length g = n" using wf by blast
        fix b assume "b \<in> set g"
        with wf g obtain q where q: "store_get st b = Some (Point_obj q)" by blast
        then have "b \<noteq> pp" using p by auto
        then show "\<exists>q. store_get ?st3 b = Some (Point_obj q)" using q old by simp
      qed
      from store_mapPoints_normalize_succeeds [OF s3 p3 this, where h = h and k = k]
      obtain st'' a where "store_mapPoints (normalize_slice h k) ?st3 series = (st'', Inr a)"
        by blast
      then show ?thesis using m by simp
    qed
    show ?thesis using c1 c2 c3 c4 by blast
  qed
  show ?thesis
  proof (rule conjI)
    show "store_get st this = Some (ChartData_obj cd memos) \<longrightarrow>
      (\<exists>st1 a. store_updateRows updater st this = (st1, Inr a) \<and>
         (\<forall>b < length st. store_get st1 b = store_get st b) \<and>
         store_get st a = None \<and>
         store_get st1 a = Some (ChartData_obj (updateRows updater cd) [])) \<and>
      (\<exists>st1 a. store_mapRows mapper st this = (st1, Inr a) \<and>
         (\<forall>b < length st. store_get st1 b = store_get st b) \<and>
         store_get st a = None \<and>
         store_get st1 a = Some (ChartData_obj (mapRows mapper cd) []))"
      by (rule impI) (rule rows)
  next
    show "store_get st series = Some (Series_obj gs pp) \<and> store_get st pp = Some (Preprocess_obj p) \<and>
    normalizeToPercentage h k st series = (st', r) \<longrightarrow>
      (\<forall>b < length st. b \<noteq> pp \<longrightarrow> store_get st' b = store_get st b) \<and>
      store_get st' pp =
        Some (Preprocess_obj (p\<lparr>pp_normalizeToPercentage := Some True, pp_stacked := Some True,
                                  pp_stackType := Some ''points''\<rparr>)) \<and>
      (\<forall>a. r = Inr a \<longrightarrow>
         store_get st a = None \<and>
         (\<exists>gs'. store_get st' a = Some (Series_obj gs' pp) \<and> length gs' = length gs \<and>
            (\<forall>g' \<in> set gs'. length g' = (case gs of [] \<Rightarrow> 0 | g # _ \<Rightarrow> length g) \<and>
               (\<forall>b \<in> set g'. store_get st b = None \<and>
                  (\<exists>q. store_get st' b = Some (Point_obj q)))))) \<and>
      ((\<forall>g \<in> set gs. length g = n \<and> (\<forall>b \<in> set g. \<exists>q. store_get st b = Some (Point_obj q))) \<longrightarrow>
         (\<exists>a. r = Inr a))"
    proof (rule impI)
      assume a: "store_get st series = Some (Series_obj gs pp) \<and>
        store_get st pp = Some (Preprocess_obj p) \<and>
        normalizeToPercentage h k st series = (st', r)"
      show "(\<forall>b < length st. b \<noteq> pp \<longrightarrow> store_get st' b = store_get st b) \<and>
      store_get st' pp =
        Some (Preprocess_obj (p\<lparr>pp_normalizeToPercentage := Some True, pp_stacked := Some True,
                                  pp_stackType := Some ''points''\<rparr>)) \<and>
      (\<forall>a. r = Inr a \<longrightarrow>
         store_get st a = None \<and>
         (\<exists>gs'. store_get st' a = Some (Series_obj gs' pp) \<and> length gs' = length gs \<and>
            (\<forall>g' \<in> set gs'. length g' = (case gs of [] \<Rightarrow> 0 | g # _ \<Rightarrow> length g) \<and>
               (\<forall>b \<in> set g'. store_get st b = None \<and>
                  (\<exists>q. store_get st' b = Some (Point_obj q)))))) \<and>
      ((\<forall>g \<in> set gs. length g = n \<and> (\<forall>b \<in> set g. \<exists>q. store_get st b = Some (Point_obj q))) \<longrightarrow>
         (\<exists>a. r = Inr a))"
        by (rule step [OF conjunct1 [OF a] conjunct1 [OF conjunct2 [OF a]]
              conjunct2 [OF conjunct2 [OF a]]])
    qed
  qed
qed

lemmas store_eval = normalizeToPercentage_def assign_preprocess_def store_get_def
  store_mapPoints_def mapPoints_calls_def getPoint_def group_length_def normalize_slice_def
  get_point_def get_prop_def set_prop_def alloc_def scatter_def js_add_def js_div_def js_or_def
  obj_get_def num_add_def num_div_def double_eval Let_def upt_rec store_updateRows_def
  store_mapRows_def

text \<open>
  A store with the two points of a series of two groups, \<open>{v: 1}\<close> and \<open>{v: 3}\<close>, the
  metadata object, the series, and a chart data instance. The step leaves the first five
  objects but the metadata as they are and appends the two new points, \<open>{v: 0.25, \<dots>}\<close>
  and \<open>{v: 1, \<dots>}\<close>, and the new series; \<open>updateRows\<close> appends the new instance.
\<close>

theorem transformations_and_their_input_witness:
  "normalizeToPercentage \<lparr>number_to_string = (\<lambda>r. []), string_to_number = (\<lambda>s. NaN),
       engine_sort = (\<lambda>cmp xs. xs)\<rparr> ''v''
     [Point_obj [(''v'', JNum (Fin 1))], Point_obj [(''v'', JNum (Fin 3))],
      Preprocess_obj \<lparr>pp_stacked = None, pp_stackType = None, pp_normalizeToPercentage = None\<rparr>,
      Series_obj [[0], [1]] 2,
      ChartData_obj (new_ChartData [[(''a'', JNum (Fin 1))]]
                       [\<lparr>def_key = ''a'', def_label = None, def_isContinuous = None\<rparr>]) []] 3
   = ([Point_obj [(''v'', JNum (Fin 1))], Point_obj [(''v'', JNum (Fin 3))],
       Preprocess_obj \<lparr>pp_stacked = Some True, pp_stackType = Some ''points'',
                       pp_normalizeToPercentage = Some True\<rparr>,
       Series_obj [[0], [1]] 2,
       ChartData_obj (new_ChartData [[(''a'', JNum (Fin 1))]]
                        [\<lparr>def_key = ''a'', def_label = None, def_isContinuous = None\<rparr>]) [],
       Point_obj [(''v'', JNum (Fin (1 / 4))), (''originalValue'', JNum (Fin 1)),
                  (''percentValue'', JNum (Fin (1 / 4)))],
       Point_obj [(''v'', JNum (Fin 1)), (''originalValue'', JNum (Fin 3)),
                  (''percentValue'', JNum (Fin (3 / 4)))],
       Series_obj [[5], [6]] 2], Inr 7) \<and>
   store_updateRows (\<lambda>rows. [])
     [Point_obj [(''v'', JNum (Fin 1))], Point_obj [(''v'', JNum (Fin 3))],
      Preprocess_obj \<lparr>pp_stacked = None, pp_stackType = None, pp_normalizeToPercentage = None\<rparr>,
      Series_obj [[0], [1]] 2,
      ChartData_obj (new_ChartData [[(''a'', JNum (Fin 1))]]
                       [\<lparr>def_key = ''a'', def_label = None, def_isContinuous = None\<rparr>]) []] 4
   = ([Point_obj [(''v'', JNum (Fin 1))], Point_obj [(''v'', JNum (Fin 3))],
       Preprocess_obj \<lparr>pp_stacked = None, pp_stackType = None, pp_normalizeToPercentage = None\<rparr>,
       Series_obj [[0], [1]] 2,
       ChartData_obj (new_ChartData [[(''a'', JNum (Fin 1))]]
                        [\<lparr>def_key = ''a'', def_label = None, def_isContinuous = None\<rparr>]) [],
       ChartData_obj (new_ChartData []
                        [\<lparr>def_key = ''a'', def_label = None, def_isContinuous = Some True\<rparr>]) []],
      Inr 5)"
proof -
  define h where "h = \<lparr>number_to_string = (\<lambda>r. []), string_to_number = (\<lambda>s. NaN),
       engine_sort = (\<lambda>cmp xs. xs)\<rparr>"
  define cd where "cd = new_ChartData [[(''a'', JNum (Fin 1))]]
                       [\<lparr>def_key = ''a'', def_label = None, def_isContinuous = None\<rparr>]"
  define p where "p = \<lparr>pp_stacked = None, pp_stackType = None, pp_normalizeToPercentage = None\<rparr>"
  define st where "st = [Point_obj [(''v'', JNum (Fin 1))], Point_obj [(''v'', JNum (Fin 3))],
      Preprocess_obj p, Series_obj [[0], [1]] 2, ChartData_obj cd []]"
  obtain st' r where run: "normalizeToPercentage h ''v'' st 3 = (st', r)"
    by (cases "normalizeToPercentage h ''v'' st 3")
  have s: "store_get st 3 = Some (Series_obj [[0], [1]] 2)"
    and pp: "store_get st 2 = Some (Preprocess_obj p)"
    and c: "store_get st 4 = Some (ChartData_obj cd [])"
    by (simp_all add: st_def store_get_def)
  have wf: "\<forall>g \<in> set [[0], [1::nat]]. length g = 1 \<and>
      (\<forall>b \<in> set g. \<exists>q. store_get st b = Some (Point_obj q))"
    by (simp add: st_def store_get_def)
  note t = transformations_and_their_input [of st 4 cd "[]" "\<lambda>rows. []" _ 3 "[[0], [1]]" 2 p
      h "''v''" st' r 1]
  from t s pp run wf obtain a where a: "r = Inr a" by blast
  from t s pp run have meta: "store_get st' 2 =
      Some (Preprocess_obj (p\<lparr>pp_normalizeToPercentage := Some True, pp_stacked := Some True,
                                pp_stackType := Some ''points''\<rparr>))"
    by blast
  have ev: "normalizeToPercentage h ''v'' st 3 =
     ([Point_obj [(''v'', JNum (Fin 1))], Point_obj [(''v'', JNum (Fin 3))],
       Preprocess_obj \<lparr>pp_stacked = Some True, pp_stackType = Some ''points'',
                       pp_normalizeToPercentage = Some True\<rparr>,
       Series_obj [[0], [1]] 2, ChartData_obj cd [],
       Point_obj [(''v'', JNum (Fin (1 / 4))), (''originalValue'', JNum (Fin 1)),
                  (''percentValue'', JNum (Fin (1 / 4)))],
       Point_obj [(''v'', JNum (Fin 1)), (''originalValue'', JNum (Fin 3)),
                  (''percentValue'', JNum (Fin (3 / 4)))],
       Series_obj [[5], [6]] 2], Inr 7)"
    by (simp add: st_def h_def p_def store_eval)
  have up: "store_updateRows (\<lambda>rows. []) st 4 =
      (st @ [ChartData_obj (new_ChartData []
               [\<lparr>def_key = ''a'', def_label = None, def_isContinuous = Some True\<rparr>]) []], Inr 5)"
    using t c by (simp add: st_def cd_def store_eval updateRows_def cd_eval)
  show ?thesis
    using ev up a meta unfolding st_def h_def cd_def p_def by simp
qed

text \<open>
  The claim as the spec states it, that the step does not modify the series it is given,
  its \<open>preprocess\<close> metadata included, fails: after the call the metadata object of
  the given series has the three fields set.
\<close>

theorem normalizeToPercentage_mutates_counterexample:
  "store_get [Point_obj [(''v'', JNum (Fin 1))], Point_obj [(''v'', JNum (Fin 3))],
      Preprocess_obj \<lparr>pp_stacked = None, pp_stackType = None, pp_normalizeToPercentage = None\<rparr>,
      Series_obj [[0], [1]] 2] 3 = Some (Series_obj [[0], [1]] 2) \<and>
   store_get [Point_obj [(''v'', JNum (Fin 1))], Point_obj [(''v'', JNum (Fin 3))],
      Preprocess_obj \<lparr>pp_stacked = None, pp_stackType = None, pp_normalizeToPercentage = None\<rparr>,
      Series_obj [[0], [1]] 2] 2 =
     Some (Preprocess_obj \<lparr>pp_stacked = None, pp_stackType = None,
                            pp_normalizeToPercentage = None\<rparr>) \<and>
   store_get (fst (normalizeToPercentage
       \<lparr>number_to_string = (\<lambda>r. []), string_to_number = (\<lambda>s. NaN),
          engine_sort = (\<lambda>cmp xs. xs)\<rparr> ''v''
       [Point_obj [(''v'', JNum (Fin 1))], Point_obj [(''v'', JNum (Fin 3))],
        Preprocess_obj \<lparr>pp_stacked = None, pp_stackType = None, pp_normalizeToPercentage = None\<rparr>,
        Series_obj [[0], [1]] 2] 3)) 2 =
     Some (Preprocess_obj \<lparr>pp_stacked = Some True, pp_stackType = Some ''points'',
                            pp_normalizeToPercentage = Some True\<rparr>)"
  by (simp add: store_eval)

section \<open>The grouped series builder\<close>

lemma mset_insert_sorted: "mset (insert_sorted cmp x ys) = add_mset x (mset ys)"
  by (induction ys) auto

lemma set_insert_sorted: "set (insert_sorted cmp x ys) = insert x (set ys)"
  by (induction ys) auto

lemma mset_stable_sort: "mset (stable_sort cmp xs) = mset xs"
  unfolding stable_sort_def
  by (induction xs rule: rev_induct) (auto simp: mset_insert_sorted)

lemma set_stable_sort: "set (stable_sort cmp xs) = set xs"
  using mset_stable_sort [of cmp xs] by (metis set_mset_mset)

lemma sorted_insert_sorted:
  assumes total: "\<And>a b. a \<in> A \<Longrightarrow> b \<in> A \<Longrightarrow>
             \<not> js_less (Fin 0) (cmp a b) \<or> \<not> js_less (Fin 0) (cmp b a)"
    and trans: "\<And>a b c. a \<in> A \<Longrightarrow> b \<in> A \<Longrightarrow> c \<in> A \<Longrightarrow>
             \<not> js_less (Fin 0) (cmp a b) \<Longrightarrow> \<not> js_less (Fin 0) (cmp b c) \<Longrightarrow>
             \<not> js_less (Fin 0) (cmp a c)"
    and "x \<in> A" and "set ys \<subseteq> A"
    and "sorted_wrt (\<lambda>a b. \<not> js_less (Fin 0) (cmp a b)) ys"
  shows "sorted_wrt (\<lambda>a b. \<not> js_less (Fin 0) (cmp a b)) (insert_sorted cmp x ys)"
  using assms(3-5)
proof (induction ys)
  case Nil
  then show ?case by simp
next
  case (Cons y ys)
  have yA: "y \<in> A" and ysA: "set ys \<subseteq> A" using Cons.prems(2) by simp_all
  have sy: "\<forall>z \<in> set ys. \<not> js_less (Fin 0) (cmp y z)"
    and sys: "sorted_wrt (\<lambda>a b. \<not> js_less (Fin 0) (cmp a b)) ys"
    using Cons.prems(3) by simp_all
  show ?case
  proof (cases "js_less (Fin 0) (cmp y x)")
    case True
    have xy: "\<not> js_less (Fin 0) (cmp x y)"
      using total [OF yA Cons.prems(1)] True by blast
    have xz: "\<not> js_less (Fin 0) (cmp x z)" if "z \<in> set ys" for z
    proof -
      have zA: "z \<in> A" using that ysA by blast
      have "\<not> js_less (Fin 0) (cmp y z)" using sy that by blast
      then show ?thesis by (rule trans [OF Cons.prems(1) yA zA xy])
    qed
    have "insert_sorted cmp x (y # ys) = x # y # ys" using True by simp
    then show ?thesis using xy xz sy sys by simp
  next
    case False
    have ih: "sorted_wrt (\<lambda>a b. \<not> js_less (Fin 0) (cmp a b)) (insert_sorted cmp x ys)"
      by (rule Cons.IH [OF Cons.prems(1) ysA sys])
    have "insert_sorted cmp x (y # ys) = y # insert_sorted cmp x ys" using False by simp
    then show ?thesis using ih sy False by (simp add: set_insert_sorted)
  qed
qed

lemma sorted_stable_sort:
  assumes total: "\<And>a b. a \<in> A \<Longrightarrow> b \<in> A \<Longrightarrow>
             \<not> js_less (Fin 0) (cmp a b) \<or> \<not> js_less (Fin 0) (cmp b a)"
    and trans: "\<And>a b c. a \<in> A \<Longrightarrow> b \<in> A \<Longrightarrow> c \<in> A \<Longrightarrow>
             \<not> js_less (Fin 0) (cmp a b) \<Longrightarrow> \<not> js_less (Fin 0) (cmp b c) \<Longrightarrow>
             \<not> js_less (Fin 0) (cmp a c)"
    and "set xs \<subseteq> A"
  shows "sorted_wrt (\<lambda>a b. \<not> js_less (Fin 0) (cmp a b)) (stable_sort cmp xs)"
  using assms(3)
proof (induction xs rule: rev_induct)
  case Nil
  show ?case by (simp add: stable_sort_def)
next
  case (snoc x xs)
  have s: "stable_sort cmp (xs @ [x]) = insert_sorted cmp x (stable_sort cmp xs)"
    by (simp add: stable_sort_def)
  have xA: "x \<in> A" and xsA: "set xs \<subseteq> A" using snoc.prems by simp_all
  have ih: "sorted_wrt (\<lambda>a b. \<not> js_less (Fin 0) (cmp a b)) (stable_sort cmp xs)"
    by (rule snoc.IH [OF xsA])
  have sub: "set (stable_sort cmp xs) \<subseteq> A" using xsA by (simp add: set_stable_sort)
  show ?case
    unfolding s by (rule sorted_insert_sorted [OF total trans xA sub ih])
qed

text \<open>
  A consistent comparator orders the values: a number that is not \<open>NaN\<close> is negative,
  zero or positive, so of two values one is not after the other, and "not after" is
  transitive.
\<close>

lemma sign_cases:
  "n \<noteq> NaN \<Longrightarrow>
   (js_less n (Fin 0) \<and> n \<noteq> Fin 0 \<and> \<not> js_less (Fin 0) n) \<or>
   (n = Fin 0 \<and> \<not> js_less n (Fin 0) \<and> \<not> js_less (Fin 0) n) \<or>
   (js_less (Fin 0) n \<and> n \<noteq> Fin 0 \<and> \<not> js_less n (Fin 0))"
  by (cases n) auto

lemma consistent_comparatorD:
  assumes "consistent_comparator cmp xs" and "a \<in> set xs" and "b \<in> set xs" and "c \<in> set xs"
  shows "cmp a b \<noteq> NaN"
    and "cmp a a = Fin 0"
    and "cmp a b = Fin 0 \<Longrightarrow> cmp b a = Fin 0"
    and "cmp a b = Fin 0 \<Longrightarrow> cmp b c = Fin 0 \<Longrightarrow> cmp a c = Fin 0"
    and "js_less (cmp a b) (Fin 0) \<Longrightarrow> js_less (cmp b c) (Fin 0) \<Longrightarrow> js_less (cmp a c) (Fin 0)"
    and "js_less (Fin 0) (cmp a b) \<Longrightarrow> js_less (Fin 0) (cmp b c) \<Longrightarrow> js_less (Fin 0) (cmp a c)"
proof -
  have all: "cmp a b \<noteq> NaN \<and>
        cmp a a = Fin 0 \<and>
        (cmp a b = Fin 0 \<longrightarrow> cmp b a = Fin 0) \<and>
        (cmp a b = Fin 0 \<and> cmp b c = Fin 0 \<longrightarrow> cmp a c = Fin 0) \<and>
        (js_less (cmp a b) (Fin 0) \<and> js_less (cmp b c) (Fin 0) \<longrightarrow> js_less (cmp a c) (Fin 0)) \<and>
        (js_less (Fin 0) (cmp a b) \<and> js_less (Fin 0) (cmp b c) \<longrightarrow> js_less (Fin 0) (cmp a c))"
    using assms(1) [unfolded consistent_comparator_def, rule_format, OF assms(2) assms(3) assms(4)] .
  show "cmp a b \<noteq> NaN" using all by blast
  show "cmp a a = Fin 0" using all by blast
  show "cmp a b = Fin 0 \<Longrightarrow> cmp b a = Fin 0" using all by blast
  show "cmp a b = Fin 0 \<Longrightarrow> cmp b c = Fin 0 \<Longrightarrow> cmp a c = Fin 0" using all by blast
  show "js_less (cmp a b) (Fin 0) \<Longrightarrow> js_less (cmp b c) (Fin 0) \<Longrightarrow> js_less (cmp a c) (Fin 0)"
    using all by blast
  show "js_less (Fin 0) (cmp a b) \<Longrightarrow> js_less (Fin 0) (cmp b c) \<Longrightarrow> js_less (Fin 0) (cmp a c)"
    using all by blast
qed

lemma consistent_after_before:
  assumes c: "consistent_comparator cmp xs" and a: "a \<in> set xs" and b: "b \<in> set xs"
    and lt: "js_less (cmp a b) (Fin 0)"
  shows "js_less (Fin 0) (cmp b a)"
proof (rule ccontr)
  assume n: "\<not> js_less (Fin 0) (cmp b a)"
  from sign_cases [OF consistent_comparatorD(1) [OF c b a a]] n
  consider "js_less (cmp b a) (Fin 0)" | "cmp b a = Fin 0" by blast
  then show False
  proof cases
    case 1
    have "js_less (cmp a a) (Fin 0)" by (rule consistent_comparatorD(5) [OF c a b a lt 1])
    then show False using consistent_comparatorD(2) [OF c a a a] by simp
  next
    case 2
    have "cmp a b = Fin 0" by (rule consistent_comparatorD(3) [OF c b a a 2])
    then show False using lt by simp
  qed
qed

lemma consistent_total:
  assumes c: "consistent_comparator cmp xs" and a: "a \<in> set xs" and b: "b \<in> set xs"
  shows "\<not> js_less (Fin 0) (cmp a b) \<or> \<not> js_less (Fin 0) (cmp b a)"
proof (rule ccontr)
  assume "\<not> (\<not> js_less (Fin 0) (cmp a b) \<or> \<not> js_less (Fin 0) (cmp b a))"
  then have ab: "js_less (Fin 0) (cmp a b)" and ba: "js_less (Fin 0) (cmp b a)" by simp_all
  have "js_less (Fin 0) (cmp a a)" by (rule consistent_comparatorD(6) [OF c a b a ab ba])
  then show False using consistent_comparatorD(2) [OF c a a a] by simp
qed

lemma consistent_trans:
  assumes c: "consistent_comparator cmp xs"
    and a: "a \<in> set xs" and b: "b \<in> set xs" and d: "d \<in> set xs"
    and ab: "\<not> js_less (Fin 0) (cmp a b)" and bd: "\<not> js_less (Fin 0) (cmp b d)"
  shows "\<not> js_less (Fin 0) (cmp a d)"
proof
  assume ad: "js_less (Fin 0) (cmp a d)"
  from sign_cases [OF consistent_comparatorD(1) [OF c a b b]] ab
  consider (lt) "js_less (cmp a b) (Fin 0)" | (eq) "cmp a b = Fin 0" by blast
  then show False
  proof cases
    case lt
    have ba: "js_less (Fin 0) (cmp b a)" by (rule consistent_after_before [OF c a b lt])
    have "js_less (Fin 0) (cmp b d)" by (rule consistent_comparatorD(6) [OF c b a d ba ad])
    then show False using bd by simp
  next
    case eq
    from sign_cases [OF consistent_comparatorD(1) [OF c b d d]] bd
    consider (lt') "js_less (cmp b d) (Fin 0)" | (eq') "cmp b d = Fin 0" by blast
    then show False
    proof cases
      case lt'
      have db: "js_less (Fin 0) (cmp d b)" by (rule consistent_after_before [OF c b d lt'])
      have "js_less (Fin 0) (cmp a b)" by (rule consistent_comparatorD(6) [OF c a d b ad db])
      then show False using ab by simp
    next
      case eq'
      have "cmp a d = Fin 0" by (rule consistent_comparatorD(4) [OF c a b d eq eq'])
      then show False using ad by simp
    qed
  qed
qed

lemma consistent_comparator_set:
  "set xs = set ys \<Longrightarrow> consistent_comparator cmp xs = consistent_comparator cmp ys"
  by (simp add: consistent_comparator_def)

text \<open>
  The result of \<open>sort\<close>: with a consistent comparator it is a rearrangement of the
  array in which no element is after a later one; with another comparator it is a
  rearrangement if the engine's order is one.
\<close>

lemma mset_js_sort:
  assumes "\<forall>cmp xs. mset (engine_sort h cmp xs) = mset xs"
  shows "mset (js_sort h cmp xs) = mset xs"
  using assms by (simp add: js_sort_def mset_stable_sort)

lemma sorted_js_sort:
  assumes "consistent_comparator cmp xs"
  shows "sorted_wrt (\<lambda>a b. \<not> js_less (Fin 0) (cmp a b)) (js_sort h cmp xs)"
proof -
  have "sorted_wrt (\<lambda>a b. \<not> js_less (Fin 0) (cmp a b)) (stable_sort cmp xs)"
  proof (rule sorted_stable_sort [where A = "set xs"])
    show "\<not> js_less (Fin 0) (cmp a b) \<or> \<not> js_less (Fin 0) (cmp b a)"
      if "a \<in> set xs" "b \<in> set xs" for a b
      by (rule consistent_total [OF assms that])
    show "\<not> js_less (Fin 0) (cmp a c)"
      if "a \<in> set xs" "b \<in> set xs" "c \<in> set xs"
        "\<not> js_less (Fin 0) (cmp a b)" "\<not> js_less (Fin 0) (cmp b c)" for a b c
      by (rule consistent_trans [OF assms that])
    show "set xs \<subseteq> set xs" by simp
  qed
  then show ?thesis using assms by (simp add: js_sort_def)
qed

lemma map_of_foldl_update:
  "map_of (foldl (\<lambda>m x. AList.update (f x) (g x) m) m0 xs) k =
     (case find (\<lambda>x. f x = k) (rev xs) of Some x \<Rightarrow> Some (g x) | None \<Rightarrow> map_of m0 k)"
  by (induction xs rule: rev_induct) (auto simp: update_conv')

lemma keys_foldl_update_known:
  "\<forall>x \<in> set xs. f x \<in> fst ` set m0 \<Longrightarrow>
   map fst (foldl (\<lambda>m x. AList.update (f x) (g x) m) m0 xs) = map fst m0"
  by (induction xs rule: rev_induct) (auto simp: update_keys)

lemma keys_foldl_update_Nil:
  "map fst (foldl (\<lambda>m x. AList.update (f x) (g x) m) [] xs) = toOrderedSet (map f xs)"
proof (induction xs rule: rev_induct)
  case Nil
  show ?case by (simp add: toOrderedSet_def)
next
  case (snoc x xs)
  then show ?case by (simp add: update_keys toOrderedSet_snoc)
qed

lemma alist_by_keys:
  "distinct (map fst al) \<Longrightarrow> map snd al = map (\<lambda>k. the (map_of al k)) (map fst al)"
proof (induction al)
  case Nil
  show ?case by simp
next
  case (Cons p al)
  obtain k v where p: "p = (k, v)" by (cases p)
  have k: "k \<notin> fst ` set al" and d: "distinct (map fst al)"
    using Cons.prems p by auto
  have "the (map_of (p # al) k') = the (map_of al k')" if "k' \<in> fst ` set al" for k'
    using that k p by auto
  then have "map (\<lambda>k'. the (map_of (p # al) k')) (map fst al) =
             map (\<lambda>k'. the (map_of al k')) (map fst al)"
    by (intro map_cong) auto
  then show ?case using Cons.IH [OF d] p by simp
qed

lemma make_groupedItems_groupBy:
  "make_groupedItems h groupKey rr items = Inr G \<Longrightarrow>
   G = foldl (\<lambda>groups x. case map_of groups (item_key h groupKey x) of
                            None \<Rightarrow> groups @ [(item_key h groupKey x, [x])]
                          | Some g \<Rightarrow> AList.update (item_key h groupKey x) (g @ [x]) groups) rr items"
  by (induction items arbitrary: rr) (auto simp: Let_def split: option.splits if_splits)

lemma make_groupedItems_returns:
  "\<forall>item \<in> set items. item_key h groupKey item \<notin> set Object_prototype_names \<Longrightarrow>
   \<exists>G. make_groupedItems h groupKey rr items = Inr G"
  by (induction items arbitrary: rr) (auto simp: Let_def split: option.splits)

lemma set_Object_entries: "set (Object_entries obj) = set obj"
  by (auto simp: Object_entries_def)

lemma find_SomeD: "find P xs = Some x \<Longrightarrow> x \<in> set xs \<and> P x"
  by (induction xs) (auto split: if_splits)

lemma find_eq_key: "find (\<lambda>x. x = k) xs = (if k \<in> set xs then Some k else None)"
  by (induction xs) auto

lemma make_group_spec:
  assumes "set grp \<subseteq> set data"
  shows "make_group h pk gk ps dp (make_baseGroup h pk data) grp =
     js_sort h ps (map (spec_point h pk gk dp data grp)
                     (toOrderedSet (map (\<lambda>item. js_String h (obj_get item pk)) data)))"
proof -
  let ?sf = "\<lambda>item. js_String h (obj_get item pk)"
  let ?B = "foldl (\<lambda>m item. AList.update (?sf item) [(pk, obj_get item pk)] m) [] data"
  let ?bv = "make_baseValues gk grp"
  let ?G = "map (\<lambda>(k, v). (k, spread (spread dp ?bv) v)) ?B"
  let ?N = "foldl (\<lambda>m item. AList.update (?sf item) (spread dp item) m) ?G grp"
  let ?keys = "toOrderedSet (map ?sf data)"
  have B: "make_baseGroup h pk data = ?B"
    by (simp add: make_baseGroup_def Let_def)
  have keysB: "map fst ?B = ?keys"
    by (rule keys_foldl_update_Nil)
  have keysG: "map fst ?G = ?keys"
    using keysB by (simp add: comp_def case_prod_unfold)
  have setkeys: "set ?keys = ?sf ` set data" and dist: "distinct ?keys"
    using toOrderedSet_set_distinct [of "map ?sf data"] by simp_all
  have known: "\<forall>item \<in> set grp. ?sf item \<in> fst ` set ?G"
  proof
    fix item assume "item \<in> set grp"
    then have "?sf item \<in> set ?keys" using assms setkeys by blast
    then show "?sf item \<in> fst ` set ?G" using keysG by (metis set_map)
  qed
  have keysN: "map fst ?N = ?keys"
    using keys_foldl_update_known [OF known] keysG by simp
  have mapB: "map_of ?B k =
      (case find (\<lambda>x. ?sf x = k) (rev data) of
         Some x \<Rightarrow> Some [(pk, obj_get x pk)] | None \<Rightarrow> None)" for k
    using map_of_foldl_update [of ?sf "\<lambda>item. [(pk, obj_get item pk)]" "[]" data k]
    by (simp split: option.splits)
  have mapG: "map_of ?G k = map_option (\<lambda>v. spread (spread dp ?bv) v) (map_of ?B k)" for k
    by (simp add: map_of_map)
  have mapN: "map_of ?N k =
      (case find (\<lambda>x. ?sf x = k) (rev grp) of
         Some x \<Rightarrow> Some (spread dp x) | None \<Rightarrow> map_of ?G k)" for k
    by (rule map_of_foldl_update)
  have point: "the (map_of ?N k) = spec_point h pk gk dp data grp k" if "k \<in> set ?keys" for k
  proof (cases "find (\<lambda>x. ?sf x = k) (rev grp)")
    case (Some x)
    then show ?thesis by (simp add: mapN spec_point_def spec_record_def)
  next
    case None
    from that obtain y where "y \<in> set data" "?sf y = k" using setkeys by auto
    then have "find (\<lambda>x. ?sf x = k) (rev data) \<noteq> None"
      by (auto simp: find_None_iff)
    then obtain x where x: "find (\<lambda>x. ?sf x = k) (rev data) = Some x" by blast
    show ?thesis
      by (simp add: mapN None mapG mapB x spec_point_def spec_record_def spec_pointValue_def)
  qed
  have "map snd ?N = map (\<lambda>k. the (map_of ?N k)) (map fst ?N)"
    by (rule alist_by_keys) (simp add: keysN dist)
  also have "\<dots> = map (spec_point h pk gk dp data grp) ?keys"
    unfolding keysN using point by simp
  finally have "map snd ?N = map (spec_point h pk gk dp data grp) ?keys" .
  then show ?thesis
    unfolding make_group_def B Let_def by simp
qed

lemma baseValues_lookup:
  "map_of (make_baseValues groupKey grp) k =
     (if k \<in> set groupKey
      then Some (case find (\<lambda>ii. js_truthy (obj_get ii k)) grp of
                   None \<Rightarrow> JUndefined | Some ii \<Rightarrow> obj_get ii k)
      else None)"
proof -
  have f: "find (\<lambda>x. x = k) (rev groupKey) = (if k \<in> set groupKey then Some k else None)"
    by (simp add: find_eq_key)
  show ?thesis
    unfolding make_baseValues_def
    using map_of_foldl_update [of "\<lambda>k. k"
        "\<lambda>k. case find (\<lambda>ii. js_truthy (obj_get ii k)) grp of
                None \<Rightarrow> JUndefined | Some ii \<Rightarrow> obj_get ii k" "[]" groupKey k]
    by (simp add: f)
qed

lemma baseValues_distinct: "distinct (map fst (make_baseValues groupKey grp))"
  unfolding make_baseValues_def
  by (induction groupKey rule: rev_induct) (auto simp: distinct_update)

lemma spread_lookup:
  assumes "distinct (map fst b)"
  shows "obj_get (spread a b) k = (case map_of b k of Some v \<Rightarrow> v | None \<Rightarrow> obj_get a k)"
proof -
  have m: "map_of (spread a b) k =
      (case find (\<lambda>x. fst x = k) (rev b) of Some x \<Rightarrow> Some (snd x) | None \<Rightarrow> map_of a k)"
    unfolding spread_def
    using map_of_foldl_update [of fst snd a b k] by (simp add: case_prod_unfold)
  show ?thesis
  proof (cases "find (\<lambda>x. fst x = k) (rev b)")
    case None
    then have "k \<notin> fst ` set b" by (auto simp: find_None_iff)
    then have "map_of b k = None" by (simp add: map_of_eq_None_iff)
    then show ?thesis using m None by (simp add: obj_get_def)
  next
    case (Some x)
    then have "x \<in> set b" "fst x = k" by (auto dest: find_SomeD)
    then have "map_of b k = Some (snd x)"
      using assms by (metis map_of_is_SomeI prod.collapse)
    then show ?thesis using m Some by (simp add: obj_get_def)
  qed
qed

lemma synthesized_point_fields:
  assumes "spec_record h pk grp k = None" and "pk \<notin> set gk"
  shows "obj_get (spec_point h pk gk dp data grp k) pk = spec_pointValue h pk data k"
    and "f \<in> set gk \<Longrightarrow> find (\<lambda>ii. js_truthy (obj_get ii f)) grp = Some ii \<Longrightarrow>
         obj_get (spec_point h pk gk dp data grp k) f = obj_get ii f"
    and "f \<notin> set gk \<Longrightarrow> f \<noteq> pk \<Longrightarrow>
         obj_get (spec_point h pk gk dp data grp k) f = obj_get dp f"
proof -
  let ?bv = "make_baseValues gk grp"
  have p: "spec_point h pk gk dp data grp k =
      spread (spread dp ?bv) [(pk, spec_pointValue h pk data k)]"
    using assms(1) by (simp add: spec_point_def)
  have l: "obj_get (spread (spread dp ?bv) [(pk, v)]) f' =
      (if f' = pk then v
       else case map_of ?bv f' of Some w \<Rightarrow> w | None \<Rightarrow> obj_get dp f')" for v f'
    by (simp add: spread_lookup baseValues_distinct)
  show "obj_get (spec_point h pk gk dp data grp k) pk = spec_pointValue h pk data k"
    unfolding p l by simp
  show "obj_get (spec_point h pk gk dp data grp k) f = obj_get ii f"
    if "f \<in> set gk" "find (\<lambda>ii. js_truthy (obj_get ii f)) grp = Some ii"
    unfolding p l using that assms(2) by (auto simp: baseValues_lookup)
  show "obj_get (spec_point h pk gk dp data grp k) f = obj_get dp f"
    if "f \<notin> set gk" "f \<noteq> pk"
    unfolding p l using that by (simp add: baseValues_lookup)
qed

lemma find_all:
  "grp \<noteq> [] \<Longrightarrow> \<forall>ii \<in> set grp. P ii \<Longrightarrow> \<exists>ii \<in> set grp. find P grp = Some ii"
  by (cases grp) auto

text \<open>
  The constructor throws for a point key that is among the group keys, and it returns a
  series when, besides, no record's dictionary key is the name of a property inherited
  from \<open>Object.prototype\<close>.
\<close>

lemma new_GroupedSeries_returns:
  assumes "cfg_pointKey config \<notin> set (concat_groupKey (cfg_groupKey config))"
    and "\<forall>item \<in> set (cfg_data config).
           item_key h (concat_groupKey (cfg_groupKey config)) item \<notin> set Object_prototype_names"
  shows "\<exists>s. new_GroupedSeries h config = Inr s"
proof -
  from assms(2) obtain G where
    "make_groupedItems h (concat_groupKey (cfg_groupKey config)) [] (cfg_data config) = Inr G"
    using make_groupedItems_returns by blast
  then show ?thesis using assms(1) by (simp add: new_GroupedSeries_def Let_def)
qed

lemma new_GroupedSeries_Inr:
  assumes "new_GroupedSeries h config = Inr s"
  shows "cfg_pointKey config \<notin> set (concat_groupKey (cfg_groupKey config))"
    and "\<exists>G. make_groupedItems h (concat_groupKey (cfg_groupKey config)) [] (cfg_data config) = Inr G \<and>
           groups s =
             map (\<lambda>(k, grp).
                    make_group h (cfg_pointKey config) (concat_groupKey (cfg_groupKey config))
                      (case cfg_pointSort config of
                         None \<Rightarrow> default_pointSort h (cfg_pointKey config) | Some f \<Rightarrow> f)
                      (case cfg_defaultPoint config of None \<Rightarrow> [] | Some p \<Rightarrow> p)
                      (make_baseGroup h (cfg_pointKey config) (cfg_data config)) grp)
               (Object_entries G)"
  using assms
  by (auto simp: new_GroupedSeries_def Let_def split: if_splits sum.splits)

text \<open>
  C7, as the code has it. Let the builder return a series for a data set, a point key,
  group keys and a default point. Every group of the series has the same length, the
  number of distinct string forms \<open>String(value)\<close> of the point key values of the whole
  input. The group is made from the records that share one dictionary key, and it holds
  exactly one point per such string form: where the group has a record at the string
  form, the point is \<open>defaultPoint\<close> overlaid with that record; where it has none, the
  point holds that point key value, under a group key the value that all records of the
  group have there, if they have one value and it is truthy, and the value of
  \<open>defaultPoint\<close> under every other field. The group is in the order of the comparator,
  no point after a later one, when the comparator is consistent for its points. With a
  comparator that is not consistent the order is the engine's, which is taken to
  rearrange the points.
\<close>

theorem GroupedSeries_aligned:
  assumes pk: "pk = cfg_pointKey config"
    and gk: "gk = concat_groupKey (cfg_groupKey config)"
    and data: "data = cfg_data config"
    and dp: "dp = (case cfg_defaultPoint config of None \<Rightarrow> [] | Some p \<Rightarrow> p)"
    and ps: "ps = (case cfg_pointSort config of None \<Rightarrow> default_pointSort h pk | Some f \<Rightarrow> f)"
    and ret: "new_GroupedSeries h config = Inr s"
    and perm: "\<forall>cmp xs. mset (engine_sort h cmp xs) = mset xs"
    and g: "g \<in> set (groups s)"
  shows "length g = card ((\<lambda>item. js_String h (obj_get item pk)) ` set data) \<and>
     (\<exists>k grp keys pts.
        grp = filter (\<lambda>item. item_key h gk item = k) data \<and> grp \<noteq> [] \<and>
        distinct keys \<and> set keys = (\<lambda>item. js_String h (obj_get item pk)) ` set data \<and>
        length pts = length keys \<and> mset g = mset pts \<and>
        (\<forall>i < length keys.
           (case spec_record h pk grp (keys ! i) of
              Some item \<Rightarrow> pts ! i = spread dp item
            | None \<Rightarrow>
                obj_get (pts ! i) pk = spec_pointValue h pk data (keys ! i) \<and>
                (\<forall>f \<in> set gk. \<forall>v. js_truthy v \<and> (\<forall>ii \<in> set grp. obj_get ii f = v) \<longrightarrow>
                   obj_get (pts ! i) f = v) \<and>
                (\<forall>f. f \<notin> set gk \<and> f \<noteq> pk \<longrightarrow> obj_get (pts ! i) f = obj_get dp f)))) \<and>
     (consistent_comparator ps g \<longrightarrow> sorted_wrt (\<lambda>a b. \<not> js_less (Fin 0) (ps a b)) g)"
proof -
  let ?sf = "\<lambda>item. js_String h (obj_get item pk)"
  let ?keys = "toOrderedSet (map ?sf data)"
  let ?mk = "\<lambda>grp. make_group h pk gk ps dp (make_baseGroup h pk data) grp"
  have notin: "pk \<notin> set gk"
    using new_GroupedSeries_Inr(1) [OF ret] by (simp add: pk gk)
  from new_GroupedSeries_Inr(2) [OF ret] obtain G
    where G: "make_groupedItems h gk [] data = Inr G"
      and gs: "groups s = map (\<lambda>(k, grp). ?mk grp) (Object_entries G)"
    unfolding pk [symmetric] gk [symmetric] data [symmetric] dp [symmetric] ps [symmetric]
    by blast
  have Gg: "G = groupBy (item_key h gk) data"
    using make_groupedItems_groupBy [OF G] by (simp add: groupBy_def)
  have setkeys: "set ?keys = ?sf ` set data" and dist: "distinct ?keys"
    using toOrderedSet_set_distinct [of "map ?sf data"] by simp_all
  from g obtain k grp where kg: "(k, grp) \<in> set G" and gm: "g = ?mk grp"
    unfolding gs by (auto simp: set_Object_entries)
  have "map_of G k = Some grp"
    using kg groupBy_distinct [of "item_key h gk" data] by (simp add: Gg)
  then have grp: "grp = filter (\<lambda>item. item_key h gk item = k) data" and ne: "grp \<noteq> []"
    by (auto simp: Gg map_of_groupBy split: if_splits)
  have sub: "set grp \<subseteq> set data" using grp by auto
  let ?pts = "map (spec_point h pk gk dp data grp) ?keys"
  have gsort: "g = js_sort h ps ?pts"
    unfolding gm by (rule make_group_spec [OF sub])
  have m: "mset g = mset ?pts" unfolding gsort by (rule mset_js_sort [OF perm])
  have "length g = length ?pts" using m by (metis size_mset)
  then have len: "length g = card (?sf ` set data)"
    using distinct_card [OF dist] setkeys by simp
  have setg: "set g = set ?pts" using m by (metis set_mset_mset)
  have point: "case spec_record h pk grp (?keys ! i) of
              Some item \<Rightarrow> ?pts ! i = spread dp item
            | None \<Rightarrow>
                obj_get (?pts ! i) pk = spec_pointValue h pk data (?keys ! i) \<and>
                (\<forall>f \<in> set gk. \<forall>v. js_truthy v \<and> (\<forall>ii \<in> set grp. obj_get ii f = v) \<longrightarrow>
                   obj_get (?pts ! i) f = v) \<and>
                (\<forall>f. f \<notin> set gk \<and> f \<noteq> pk \<longrightarrow> obj_get (?pts ! i) f = obj_get dp f)"
    if i: "i < length ?keys" for i
  proof (cases "spec_record h pk grp (?keys ! i)")
    case (Some item)
    then show ?thesis using i by (simp add: spec_point_def)
  next
    case None
    have p: "?pts ! i = spec_point h pk gk dp data grp (?keys ! i)" using i by simp
    have a: "obj_get (?pts ! i) pk = spec_pointValue h pk data (?keys ! i)"
      unfolding p by (rule synthesized_point_fields(1) [OF None notin])
    have b: "obj_get (?pts ! i) f = v"
      if f: "f \<in> set gk" and v: "js_truthy v" and all: "\<forall>ii \<in> set grp. obj_get ii f = v" for f v
    proof -
      have "\<forall>ii \<in> set grp. js_truthy (obj_get ii f)" using v all by simp
      from find_all [OF ne this] obtain ii
        where ii: "ii \<in> set grp" and fi: "find (\<lambda>ii. js_truthy (obj_get ii f)) grp = Some ii"
        by blast
      have "obj_get (?pts ! i) f = obj_get ii f"
        unfolding p by (rule synthesized_point_fields(2) [OF None notin f fi])
      then show ?thesis using all ii by simp
    qed
    have c: "obj_get (?pts ! i) f = obj_get dp f" if "f \<notin> set gk" "f \<noteq> pk" for f
      unfolding p by (rule synthesized_point_fields(3) [OF None notin that])
    show ?thesis using None a b c by simp
  qed
  have sorted: "sorted_wrt (\<lambda>a b. \<not> js_less (Fin 0) (ps a b)) g"
    if "consistent_comparator ps g"
  proof -
    have "consistent_comparator ps ?pts"
      using that consistent_comparator_set [OF setg] by simp
    then show ?thesis unfolding gsort by (rule sorted_js_sort)
  qed
  have "\<exists>keys pts.
        distinct keys \<and> set keys = ?sf ` set data \<and>
        length pts = length keys \<and> mset g = mset pts \<and>
        (\<forall>i < length keys.
           (case spec_record h pk grp (keys ! i) of
              Some item \<Rightarrow> pts ! i = spread dp item
            | None \<Rightarrow>
                obj_get (pts ! i) pk = spec_pointValue h pk data (keys ! i) \<and>
                (\<forall>f \<in> set gk. \<forall>v. js_truthy v \<and> (\<forall>ii \<in> set grp. obj_get ii f = v) \<longrightarrow>
                   obj_get (pts ! i) f = v) \<and>
                (\<forall>f. f \<notin> set gk \<and> f \<noteq> pk \<longrightarrow> obj_get (pts ! i) f = obj_get dp f)))"
  proof (intro exI conjI)
    show "distinct ?keys" by (rule dist)
    show "set ?keys = ?sf ` set data" by (rule setkeys)
    show "length ?pts = length ?keys" by simp
    show "mset g = mset ?pts" by (rule m)
    show "\<forall>i < length ?keys.
           (case spec_record h pk grp (?keys ! i) of
              Some item \<Rightarrow> ?pts ! i = spread dp item
            | None \<Rightarrow>
                obj_get (?pts ! i) pk = spec_pointValue h pk data (?keys ! i) \<and>
                (\<forall>f \<in> set gk. \<forall>v. js_truthy v \<and> (\<forall>ii \<in> set grp. obj_get ii f = v) \<longrightarrow>
                   obj_get (?pts ! i) f = v) \<and>
                (\<forall>f. f \<notin> set gk \<and> f \<noteq> pk \<longrightarrow> obj_get (?pts ! i) f = obj_get dp f))"
      using point by blast
  qed
  then show ?thesis using len grp ne sorted by blast
qed

lemmas gs_eval = new_GroupedSeries_def make_group_def make_baseValues_def make_baseGroup_def
  item_key_def default_pointSort_def js_lt_def obj_get_def spread_def js_sort_def stable_sort_def
  consistent_comparator_def Object_entries_def
  index_of_key_def Object_prototype_names_def int_to_string_def digits.simps Let_def

text \<open>
  The case "will create zero points for bad data halfway through" of
  GroupedSeries-test.js, with the default comparator, and its second group, which has
  a record at \<open>x = 1\<close> only.
\<close>

theorem GroupedSeries_aligned_witness:
  "new_GroupedSeries \<lparr>number_to_string = (\<lambda>r. []), string_to_number = (\<lambda>s. NaN),
       engine_sort = (\<lambda>cmp xs. xs)\<rparr>
     \<lparr>cfg_groupKey = GroupKey ''type'', cfg_pointKey = ''x'', cfg_pointSort = None,
      cfg_data = [[(''type'', JStr ''foo''), (''x'', JNum (Fin 0)), (''value'', JNum (Fin 1))],
                  [(''type'', JStr ''foo''), (''x'', JNum (Fin 1)), (''value'', JNum (Fin 1))],
                  [(''type'', JStr ''foo''), (''x'', JNum (Fin 2)), (''value'', JNum (Fin 1))],
                  [(''type'', JStr ''bar''), (''x'', JNum (Fin 1)), (''value'', JNum (Fin 2))]],
      cfg_defaultPoint = Some [(''value'', JNum (Fin 0))]\<rparr>
   = Inr \<lparr>groups =
        [[[(''value'', JNum (Fin 1)), (''type'', JStr ''foo''), (''x'', JNum (Fin 0))],
          [(''value'', JNum (Fin 1)), (''type'', JStr ''foo''), (''x'', JNum (Fin 1))],
          [(''value'', JNum (Fin 1)), (''type'', JStr ''foo''), (''x'', JNum (Fin 2))]],
         [[(''value'', JNum (Fin 0)), (''type'', JStr ''bar''), (''x'', JNum (Fin 0))],
          [(''value'', JNum (Fin 2)), (''type'', JStr ''bar''), (''x'', JNum (Fin 1))],
          [(''value'', JNum (Fin 0)), (''type'', JStr ''bar''), (''x'', JNum (Fin 2))]]],
        preprocess = \<lparr>pp_stacked = None, pp_stackType = None, pp_normalizeToPercentage = None\<rparr>,
        series_pointKey = ''x'', series_groupKey = [''type''],
        series_rawData =
          [[(''type'', JStr ''foo''), (''x'', JNum (Fin 0)), (''value'', JNum (Fin 1))],
           [(''type'', JStr ''foo''), (''x'', JNum (Fin 1)), (''value'', JNum (Fin 1))],
           [(''type'', JStr ''foo''), (''x'', JNum (Fin 2)), (''value'', JNum (Fin 1))],
           [(''type'', JStr ''bar''), (''x'', JNum (Fin 1)), (''value'', JNum (Fin 2))]]\<rparr> \<and>
   length [[(''value'', JNum (Fin 0)), (''type'', JStr ''bar''), (''x'', JNum (Fin 0))],
           [(''value'', JNum (Fin 2)), (''type'', JStr ''bar''), (''x'', JNum (Fin 1))],
           [(''value'', JNum (Fin 0)), (''type'', JStr ''bar''), (''x'', JNum (Fin 2))]] =
     card {''0'', ''1'', ''2''} \<and>
   sorted_wrt (\<lambda>a b. \<not> js_less (Fin 0)
       (default_pointSort \<lparr>number_to_string = (\<lambda>r. []), string_to_number = (\<lambda>s. NaN),
          engine_sort = (\<lambda>cmp xs. xs)\<rparr> ''x'' a b))
     [[(''value'', JNum (Fin 0)), (''type'', JStr ''bar''), (''x'', JNum (Fin 0))],
      [(''value'', JNum (Fin 2)), (''type'', JStr ''bar''), (''x'', JNum (Fin 1))],
      [(''value'', JNum (Fin 0)), (''type'', JStr ''bar''), (''x'', JNum (Fin 2))]]"
proof -
  define h where "h = \<lparr>number_to_string = (\<lambda>r. []), string_to_number = (\<lambda>s. NaN),
       engine_sort = (\<lambda>cmp xs. xs)\<rparr>"
  define config where "config =
     \<lparr>cfg_groupKey = GroupKey ''type'', cfg_pointKey = ''x'', cfg_pointSort = None,
      cfg_data = [[(''type'', JStr ''foo''), (''x'', JNum (Fin 0)), (''value'', JNum (Fin 1))],
                  [(''type'', JStr ''foo''), (''x'', JNum (Fin 1)), (''value'', JNum (Fin 1))],
                  [(''type'', JStr ''foo''), (''x'', JNum (Fin 2)), (''value'', JNum (Fin 1))],
                  [(''type'', JStr ''bar''), (''x'', JNum (Fin 1)), (''value'', JNum (Fin 2))]],
      cfg_defaultPoint = Some [(''value'', JNum (Fin 0))]\<rparr>"
  define g where "g =
     [[(''value'', JNum (Fin 0)), (''type'', JStr ''bar''), (''x'', JNum (Fin 0))],
      [(''value'', JNum (Fin 2)), (''type'', JStr ''bar''), (''x'', JNum (Fin 1))],
      [(''value'', JNum (Fin 0)), (''type'', JStr ''bar''), (''x'', JNum (Fin 2))]]"
  define s where "s =
     \<lparr>groups =
        [[[(''value'', JNum (Fin 1)), (''type'', JStr ''foo''), (''x'', JNum (Fin 0))],
          [(''value'', JNum (Fin 1)), (''type'', JStr ''foo''), (''x'', JNum (Fin 1))],
          [(''value'', JNum (Fin 1)), (''type'', JStr ''foo''), (''x'', JNum (Fin 2))]], g],
        preprocess = \<lparr>pp_stacked = None, pp_stackType = None, pp_normalizeToPercentage = None\<rparr>,
        series_pointKey = ''x'', series_groupKey = [''type''],
        series_rawData = cfg_data config\<rparr>"
  have ret: "new_GroupedSeries h config = Inr s"
    by (simp add: h_def config_def s_def g_def gs_eval)
  have perm: "\<forall>cmp xs. mset (engine_sort h cmp xs) = mset xs"
    by (simp add: h_def)
  have gin: "g \<in> set (groups s)" by (simp add: s_def)
  have c: "consistent_comparator (default_pointSort h ''x'') g"
    by (simp add: h_def g_def consistent_comparator_def default_pointSort_def js_lt_def obj_get_def)
  note t = GroupedSeries_aligned [OF refl refl refl refl refl ret perm gin]
  have len: "length g = card ((\<lambda>item. js_String h (obj_get item ''x'')) ` set (cfg_data config))"
    using t by (simp add: config_def)
  have srt: "sorted_wrt (\<lambda>a b. \<not> js_less (Fin 0) (default_pointSort h ''x'' a b)) g"
    using t c by (simp add: config_def)
  have forms: "(\<lambda>item. js_String h (obj_get item ''x'')) ` set (cfg_data config) = {''0'', ''1'', ''2''}"
    by (auto simp: config_def h_def obj_get_def int_to_string_def digits.simps)
  show ?thesis
    using ret len srt unfolding forms
    unfolding h_def config_def s_def g_def by simp
qed

text \<open>
  The claim as the spec words it, a group length equal to the number of distinct point key
  values, fails: the number \<open>1\<close> and the string \<open>'1'\<close> are two values with one
  string form, and the group has one point.
\<close>

theorem GroupedSeries_string_form_counterexample:
  "new_GroupedSeries \<lparr>number_to_string = (\<lambda>r. []), string_to_number = (\<lambda>s. NaN),
       engine_sort = (\<lambda>cmp xs. xs)\<rparr>
     \<lparr>cfg_groupKey = GroupKey ''type'', cfg_pointKey = ''x'', cfg_pointSort = None,
      cfg_data = [[(''type'', JStr ''a''), (''x'', JNum (Fin 1))],
                  [(''type'', JStr ''a''), (''x'', JStr ''1'')]],
      cfg_defaultPoint = None\<rparr>
   = Inr \<lparr>groups = [[[(''type'', JStr ''a''), (''x'', JStr ''1'')]]],
        preprocess = \<lparr>pp_stacked = None, pp_stackType = None, pp_normalizeToPercentage = None\<rparr>,
        series_pointKey = ''x'', series_groupKey = [''type''],
        series_rawData = [[(''type'', JStr ''a''), (''x'', JNum (Fin 1))],
                          [(''type'', JStr ''a''), (''x'', JStr ''1'')]]\<rparr> \<and>
   obj_get [(''type'', JStr ''a''), (''x'', JNum (Fin 1))] ''x'' \<noteq>
   obj_get [(''type'', JStr ''a''), (''x'', JStr ''1'')] ''x''"
  by (simp add: gs_eval)

text \<open>
  Two cases beside the theorem. A group whose group key value is falsy in all its
  records (here \<open>0\<close>) gets \<open>undefined\<close> under that key in the points made for it;
  and a dictionary key that names an inherited property makes the constructor throw.
\<close>

lemma GroupedSeries_falsy_group_key:
  "new_GroupedSeries \<lparr>number_to_string = (\<lambda>r. []), string_to_number = (\<lambda>s. NaN),
       engine_sort = (\<lambda>cmp xs. xs)\<rparr>
     \<lparr>cfg_groupKey = GroupKey ''year'', cfg_pointKey = ''x'', cfg_pointSort = None,
      cfg_data = [[(''year'', JNum (Fin 0)), (''x'', JStr ''a'')],
                  [(''year'', JNum (Fin 1)), (''x'', JStr ''b'')]],
      cfg_defaultPoint = None\<rparr>
   = Inr \<lparr>groups = [[[(''year'', JNum (Fin 0)), (''x'', JStr ''a'')],
                       [(''year'', JUndefined), (''x'', JStr ''b'')]],
                      [[(''year'', JNum (Fin 1)), (''x'', JStr ''a'')],
                       [(''year'', JNum (Fin 1)), (''x'', JStr ''b'')]]],
        preprocess = \<lparr>pp_stacked = None, pp_stackType = None, pp_normalizeToPercentage = None\<rparr>,
        series_pointKey = ''x'', series_groupKey = [''year''],
        series_rawData = [[(''year'', JNum (Fin 0)), (''x'', JStr ''a'')],
                          [(''year'', JNum (Fin 1)), (''x'', JStr ''b'')]]\<rparr>"
  by (simp add: gs_eval)

lemma GroupedSeries_inherited_name_throws:
  "new_GroupedSeries h
     \<lparr>cfg_groupKey = GroupKey ''type'', cfg_pointKey = ''x'', cfg_pointSort = None,
      cfg_data = [[(''type'', JStr ''constructor''), (''x'', JNum (Fin 1))]],
      cfg_defaultPoint = None\<rparr>
   = Inl TypeError"
  by (simp add: gs_eval)

end
